theory Spec2Isabelle
  imports Main "HOL-Library.Sublist"
begin

section \<open>The configuration store of internal/config/config.go\<close>

text \<open>
  A shallow embedding of the KVS list operations, the two-level configuration store
  \<open>Config\<close> and its operations (\<open>New\<close>, \<open>Clone\<close>, \<open>Merge\<close>, \<open>GetKVS\<close>, \<open>DelKVS\<close>,
  \<open>SetKVS\<close>, \<open>RedactSensitiveInfo\<close>, \<open>ResolveConfigParam\<close>).

  Conventions.
  \<^item> A Go method \<open>T.m\<close> is the constant \<open>T_m\<close>; a package-level function keeps its name.
  \<^item> A Go string is a \<open>string\<close> (a list of bytes).
  \<^item> A Go map is a partial function; reading a missing key yields the zero value
    (\<open>zget\<close> for slices, \<open>tgts\<close> for the inner map of a store).
  \<^item> A \<open>KVS\<close> is the list of the elements of the slice. Where the source writes through
    a slice into a shared backing array (\<open>SetKVS\<close>), a second model with an explicit heap
    of backing arrays is given and related to the list model.
  \<^item> A returned \<open>error\<close> is \<open>Error msg\<close>; a run-time panic is \<open>Panic msg\<close>.
  \<^item> \<open>range\<close> over a Go map visits the keys in an unspecified order. Where the result
    depends on that order the order is a parameter of the model.
  \<^item> The package-level registries (\<open>DefaultKVS\<close>, \<open>HelpSubSysMap\<close>,
    \<open>HelpDeprecatedSubSysMap\<close>) and the process environment are parameters.
\<close>

subsection \<open>Strings (Go packages strings, unicode/utf8 and unicode)\<close>

text \<open>
  The Go standard library is not under src: the definitions of this subsection follow its
  documentation. A string is a sequence of bytes; a rune is a code point, here a natural
  number. \<open>utf8.RuneError\<close> is U+FFFD.
\<close>

definition RuneError :: nat where "RuneError = 0xFFFD"

text \<open>
  \<open>utf8.DecodeRuneInString\<close>, which is also the decoding of \<open>range\<close> over a string: the
  first rune of the string and the number of bytes of its encoding. A byte below 0x80 is
  its own rune. A first byte from 0xC2 to 0xF4 announces an encoding of two, three or
  four bytes; the second byte must lie in the range accepted after that first byte (which
  excludes the over-long encodings, the surrogates and the code points above U+10FFFF) and
  the further bytes between 0x80 and 0xBF. Anything else decodes to \<open>RuneError\<close> with
  width 1; the empty string to \<open>RuneError\<close> with width 0.
\<close>

definition DecodeRune :: "string \<Rightarrow> nat \<times> nat" where
  "DecodeRune s =
     (case s of
        [] \<Rightarrow> (RuneError, 0)
      | c0 # rest \<Rightarrow>
          let s0 = (of_char c0 :: nat) in
          if s0 < 0x80 then (s0, 1)
          else if s0 < 0xC2 \<or> 0xF4 < s0 then (RuneError, 1)
          else
            let sz = (if s0 < 0xE0 then 2 else if s0 < 0xF0 then 3 else 4 :: nat);
                lo = (if s0 = 0xE0 then 0xA0 else if s0 = 0xF0 then 0x90 else 0x80 :: nat);
                hi = (if s0 = 0xED then 0x9F else if s0 = 0xF4 then 0x8F else 0xBF :: nat)
            in if length s < sz then (RuneError, 1)
               else
                 let s1 = (of_char (rest ! 0) :: nat) in
                 if s1 < lo \<or> hi < s1 then (RuneError, 1)
                 else if sz \<le> 2 then ((s0 mod 0x20) * 0x40 + s1 mod 0x40, 2)
                 else
                   let s2 = (of_char (rest ! 1) :: nat) in
                   if s2 < 0x80 \<or> 0xBF < s2 then (RuneError, 1)
                   else if sz \<le> 3
                   then ((s0 mod 0x10) * 0x1000 + (s1 mod 0x40) * 0x40 + s2 mod 0x40, 3)
                   else
                     let s3 = (of_char (rest ! 2) :: nat) in
                     if s3 < 0x80 \<or> 0xBF < s3 then (RuneError, 1)
                     else ((s0 mod 0x08) * 0x40000 + (s1 mod 0x40) * 0x1000
                             + (s2 mod 0x40) * 0x40 + s3 mod 0x40, 4))"

text \<open>
  \<open>unicode.IsSpace\<close>: in the Latin-1 range the runes \<open>\t\<close>, \<open>\n\<close>, \<open>\v\<close>, \<open>\f\<close>, \<open>\r\<close>, the
  space, U+0085 and U+00A0; above it the code points of the property White_Space.
\<close>

definition IsSpace :: "nat \<Rightarrow> bool" where
  "IsSpace r \<longleftrightarrow>
     r \<in> {0x09, 0x0A, 0x0B, 0x0C, 0x0D, 0x20, 0x85, 0xA0, 0x1680, 0x2028, 0x2029, 0x202F,
          0x205F, 0x3000}
     \<or> (0x2000 \<le> r \<and> r \<le> 0x200A)"

text \<open>
  \<open>strings.FieldsFunc(s, f)\<close>: the string is read rune by rune; the fields are the maximal
  runs of runes that do not satisfy \<open>f\<close>. \<open>cur\<close> is the field being read (\<open>None\<close> between
  fields, where the source has \<open>start < 0\<close>).
\<close>

function FieldsFunc_scan :: "(nat \<Rightarrow> bool) \<Rightarrow> string \<Rightarrow> string option \<Rightarrow> string list" where
  "FieldsFunc_scan f [] cur = (case cur of None \<Rightarrow> [] | Some fld \<Rightarrow> [fld])"
| "FieldsFunc_scan f (c # cs) cur =
     (case DecodeRune (c # cs) of
        (r, w) \<Rightarrow>
          if f r
          then (case cur of
                  None \<Rightarrow> FieldsFunc_scan f (drop w (c # cs)) None
                | Some fld \<Rightarrow> fld # FieldsFunc_scan f (drop w (c # cs)) None)
          else FieldsFunc_scan f (drop w (c # cs))
                 (Some ((case cur of None \<Rightarrow> [] | Some fld \<Rightarrow> fld) @ take w (c # cs))))"
  by pat_completeness auto
termination
  by (relation "measure (\<lambda>(f, s, cur). length s)")
     (auto simp: DecodeRune_def Let_def split: if_splits)

definition FieldsFunc :: "string \<Rightarrow> (nat \<Rightarrow> bool) \<Rightarrow> string list" where
  "FieldsFunc s f = FieldsFunc_scan f s None"

text \<open>
  \<open>strings.Fields\<close> splits the string around each run of white space as defined by
  \<open>unicode.IsSpace\<close>. (On a string of bytes below 0x80 the source takes a shorter path
  with the six ASCII white-space bytes, which are the runes of \<open>IsSpace\<close> below 0x80.)
\<close>

definition Fields :: "string \<Rightarrow> string list" where
  "Fields s = FieldsFunc s IsSpace"

text \<open>
  \<open>strings.SplitN(s, sep, 2)\<close> for a one-byte separator: the string itself when the
  separator does not occur, else the text before its first occurrence and the text after.
\<close>

definition SplitN2 :: "string \<Rightarrow> char \<Rightarrow> string list" where
  "SplitN2 s sep =
     (if sep \<in> set s
      then [takeWhile (\<lambda>c. c \<noteq> sep) s, tl (dropWhile (\<lambda>c. c \<noteq> sep) s)]
      else [s])"

text \<open>\<open>strings.HasPrefix(s, p)\<close>.\<close>

definition HasPrefix :: "string \<Rightarrow> string \<Rightarrow> bool" where
  "HasPrefix s p \<longleftrightarrow> prefix p s"

text \<open>
  \<open>strings.ToUpper\<close>: in a string of bytes below 0x80 the letters \<open>a\<close> to \<open>z\<close> are mapped
  to \<open>A\<close> to \<open>Z\<close> and the other bytes are kept. Any other string is mapped rune by rune with
  \<open>unicode.ToUpper\<close>; the case tables of package unicode are not modelled, and the image of
  such a string is the parameter \<open>MapToUpper\<close>.
\<close>

definition toUpperChar :: "char \<Rightarrow> char" where
  "toUpperChar c =
     (case map_of (zip ''abcdefghijklmnopqrstuvwxyz'' ''ABCDEFGHIJKLMNOPQRSTUVWXYZ'') c of
        Some u \<Rightarrow> u
      | None \<Rightarrow> c)"

definition ToUpper :: "(string \<Rightarrow> string) \<Rightarrow> string \<Rightarrow> string" where
  "ToUpper MapToUpper s =
     (if list_all (\<lambda>c. (of_char c :: nat) < 0x80) s then map toUpperChar s else MapToUpper s)"

subsection \<open>Errors\<close>

text \<open>
  \<open>config.Error\<close> carries a message; \<open>Errorf\<close> with \<open>%s\<close> verbs is concatenation.
  \<open>Panic\<close> is a Go run-time panic (index out of range, assignment to an entry of a nil map).
\<close>

datatype error = Error string | Panic string

text \<open>The apostrophe of the messages.\<close>

definition apos :: string where "apos = [CHR 0x27]"

subsection \<open>Constants\<close>

text \<open>
  Modelled from the spec: the constants of package madmin (\<open>madmin.Default\<close>,
  \<open>madmin.EnableKey\<close>, \<open>madmin.CommentKey\<close>, \<open>madmin.EnableOn\<close>, \<open>madmin.EnableOff\<close> and the
  separators) are not under src. The spec names the sentinel target \<open>_\<close>, the reserved keys
  \<open>state\<close> (values \<open>on\<close>/\<open>off\<close>) and \<open>comment\<close>, and the separators \<open>:\<close>, \<open>=\<close> and a space.
  No theorem below depends on the spelling of these constants.
\<close>

definition Default :: string where "Default = ''_''"
definition Enable :: string where "Enable = ''state''"
definition Comment :: string where "Comment = ''comment''"
definition EnableOn :: string where "EnableOn = ''on''"
definition EnableOff :: string where "EnableOff = ''off''"
definition SubSystemSeparator :: char where "SubSystemSeparator = CHR '':''"
definition KvSeparator :: char where "KvSeparator = CHR ''=''"
definition KvSpaceSeparator :: char where "KvSpaceSeparator = CHR '' ''"

definition EnvPrefix :: string where "EnvPrefix = ''MINIO_''"
definition EnvWordDelimiter :: string where "EnvWordDelimiter = ''_''"

text \<open>Top level config constants (lines 69-110).\<close>

definition CredentialsSubSys :: string where "CredentialsSubSys = ''credentials''"
definition PolicyOPASubSys :: string where "PolicyOPASubSys = ''policy_opa''"
definition PolicyPluginSubSys :: string where "PolicyPluginSubSys = ''policy_plugin''"
definition IdentityOpenIDSubSys :: string where "IdentityOpenIDSubSys = ''identity_openid''"
definition IdentityLDAPSubSys :: string where "IdentityLDAPSubSys = ''identity_ldap''"
definition IdentityTLSSubSys :: string where "IdentityTLSSubSys = ''identity_tls''"
definition IdentityPluginSubSys :: string where "IdentityPluginSubSys = ''identity_plugin''"
definition CacheSubSys :: string where "CacheSubSys = ''cache''"
definition SiteSubSys :: string where "SiteSubSys = ''site''"
definition RegionSubSys :: string where "RegionSubSys = ''region''"
definition EtcdSubSys :: string where "EtcdSubSys = ''etcd''"
definition StorageClassSubSys :: string where "StorageClassSubSys = ''storage_class''"
definition APISubSys :: string where "APISubSys = ''api''"
definition CompressionSubSys :: string where "CompressionSubSys = ''compression''"
definition LoggerWebhookSubSys :: string where "LoggerWebhookSubSys = ''logger_webhook''"
definition AuditWebhookSubSys :: string where "AuditWebhookSubSys = ''audit_webhook''"
definition AuditKafkaSubSys :: string where "AuditKafkaSubSys = ''audit_kafka''"
definition HealSubSys :: string where "HealSubSys = ''heal''"
definition ScannerSubSys :: string where "ScannerSubSys = ''scanner''"
definition CrawlerSubSys :: string where "CrawlerSubSys = ''crawler''"
definition SubnetSubSys :: string where "SubnetSubSys = ''subnet''"
definition CallhomeSubSys :: string where "CallhomeSubSys = ''callhome''"
definition NotifyKafkaSubSys :: string where "NotifyKafkaSubSys = ''notify_kafka''"
definition NotifyMQTTSubSys :: string where "NotifyMQTTSubSys = ''notify_mqtt''"
definition NotifyMySQLSubSys :: string where "NotifyMySQLSubSys = ''notify_mysql''"
definition NotifyNATSSubSys :: string where "NotifyNATSSubSys = ''notify_nats''"
definition NotifyNSQSubSys :: string where "NotifyNSQSubSys = ''notify_nsq''"
definition NotifyESSubSys :: string where "NotifyESSubSys = ''notify_elasticsearch''"
definition NotifyAMQPSubSys :: string where "NotifyAMQPSubSys = ''notify_amqp''"
definition NotifyPostgresSubSys :: string where "NotifyPostgresSubSys = ''notify_postgres''"
definition NotifyRedisSubSys :: string where "NotifyRedisSubSys = ''notify_redis''"
definition NotifyWebhookSubSys :: string where "NotifyWebhookSubSys = ''notify_webhook''"

text \<open>\<open>SubSystems\<close> (lines 134-166), as the list of the elements of the string set.\<close>

definition SubSystemsList :: "string list" where
  "SubSystemsList =
     [CredentialsSubSys, SiteSubSys, RegionSubSys, EtcdSubSys, CacheSubSys, APISubSys,
      StorageClassSubSys, CompressionSubSys, LoggerWebhookSubSys, AuditWebhookSubSys,
      AuditKafkaSubSys, PolicyOPASubSys, PolicyPluginSubSys, IdentityLDAPSubSys,
      IdentityOpenIDSubSys, IdentityTLSSubSys, IdentityPluginSubSys, ScannerSubSys,
      HealSubSys, NotifyAMQPSubSys, NotifyESSubSys, NotifyKafkaSubSys, NotifyMQTTSubSys,
      NotifyMySQLSubSys, NotifyNATSSubSys, NotifyNSQSubSys, NotifyPostgresSubSys,
      NotifyRedisSubSys, NotifyWebhookSubSys, SubnetSubSys, CallhomeSubSys]"

definition SubSystems :: "string set" where
  "SubSystems = set SubSystemsList"

text \<open>\<open>SubSystemsDynamic\<close> (lines 169-180).\<close>

definition SubSystemsDynamic :: "string set" where
  "SubSystemsDynamic =
     {APISubSys, CompressionSubSys, ScannerSubSys, HealSubSys, SubnetSubSys, CallhomeSubSys,
      LoggerWebhookSubSys, AuditWebhookSubSys, AuditKafkaSubSys, StorageClassSubSys}"

text \<open>\<open>SubSystemsSingleTargets\<close> (lines 183-199).\<close>

definition SubSystemsSingleTargets :: "string set" where
  "SubSystemsSingleTargets =
     {CredentialsSubSys, SiteSubSys, RegionSubSys, EtcdSubSys, CacheSubSys, APISubSys,
      StorageClassSubSys, CompressionSubSys, PolicyOPASubSys, PolicyPluginSubSys,
      IdentityLDAPSubSys, IdentityTLSSubSys, IdentityPluginSubSys, HealSubSys, ScannerSubSys}"

text \<open>\<open>set.StringSet.FuncMatch(matchFn, matchString)\<close> on \<open>SubSystems\<close>: the members
  \<open>k\<close> with \<open>matchFn(k, matchString)\<close>.\<close>

definition SubSystems_FuncMatch :: "(string \<Rightarrow> string \<Rightarrow> bool) \<Rightarrow> string \<Rightarrow> string list" where
  "SubSystems_FuncMatch matchFn matchString = filter (\<lambda>k. matchFn k matchString) SubSystemsList"

text \<open>\<open>renamedSubsys\<close> (lines 629-632).\<close>

definition renamedSubsys :: "string \<rightharpoonup> string" where
  "renamedSubsys = [CrawlerSubSys \<mapsto> ScannerSubSys]"

text \<open>\<open>resolvableSubsystems\<close> (line 1064).\<close>

definition resolvableSubsystems :: "string set" where
  "resolvableSubsystems = {IdentityOpenIDSubSys}"

subsection \<open>KV and KVS (lines 258-387)\<close>

text \<open>
  Modelled from the spec: the type \<open>HelpKV\<close> is declared in a file of the package that is
  not under src; the spec gives a key descriptor the fields key, optional and sensitive.
\<close>

record HelpKV =
  Key :: string
  Optional :: bool
  Sensitive :: bool

record KV =
  Key :: string
  Value :: string

type_synonym KVS = "KV list"

text \<open>Reading a slice-valued Go map at a missing key gives the nil slice.\<close>

definition zget :: "('k \<rightharpoonup> 'a list) \<Rightarrow> 'k \<Rightarrow> 'a list" where
  "zget m k = (case m k of None \<Rightarrow> [] | Some v \<Rightarrow> v)"

definition KVS_Empty :: "KVS \<Rightarrow> bool" where
  "KVS_Empty kvs \<longleftrightarrow> length kvs = 0"

text \<open>\<open>Clone\<close> appends the elements to a fresh slice.\<close>

definition KVS_Clone :: "KVS \<Rightarrow> KVS" where
  "KVS_Clone kvs = [] @ kvs"

fun KVS_Lookup :: "KVS \<Rightarrow> string \<Rightarrow> string \<times> bool" where
  "KVS_Lookup [] key = ('''', False)"
| "KVS_Lookup (kv # kvs) key =
     (if KV.Key kv = key then (Value kv, True) else KVS_Lookup kvs key)"

definition KVS_Get :: "KVS \<Rightarrow> string \<Rightarrow> string" where
  "KVS_Get kvs key = (case KVS_Lookup kvs key of (v, ok) \<Rightarrow> if ok then v else '''')"

fun KVS_Set :: "KVS \<Rightarrow> string \<Rightarrow> string \<Rightarrow> KVS" where
  "KVS_Set [] key value = [\<lparr>Key = key, Value = value\<rparr>]"
| "KVS_Set (kv # kvs) key value =
     (if KV.Key kv = key then \<lparr>Key = key, Value = value\<rparr> # kvs
      else kv # KVS_Set kvs key value)"

definition KVS_Keys :: "KVS \<Rightarrow> string list" where
  "KVS_Keys kvs =
     (let keys = map KV.Key kvs
      in if Comment \<in> set keys then keys else keys @ [Comment])"

text \<open>
  The loop that occurs in \<open>GetKVS\<close> (lines 722-727, 751-756) and \<open>SetKVS\<close> (lines 900-904):
  every default whose key the slice lacks is set on it.
\<close>

definition backfill :: "KVS \<Rightarrow> KVS \<Rightarrow> KVS" where
  "backfill kvs defaults =
     foldl (\<lambda>k kv. if snd (KVS_Lookup k (KV.Key kv)) then k
                    else KVS_Set k (KV.Key kv) (Value kv)) kvs defaults"

text \<open>
  The loop of \<open>Merge\<close> (lines 642-647, 656-661): the key is looked up in the stored slice
  \<open>orig\<close>, the value is set on the local \<open>ckvs\<close>.
\<close>

definition merge_fill :: "KVS \<Rightarrow> KVS \<Rightarrow> KVS \<Rightarrow> KVS" where
  "merge_fill orig ckvs defaults =
     foldl (\<lambda>k kv. if snd (KVS_Lookup orig (KV.Key kv)) then k
                    else KVS_Set k (KV.Key kv) (Value kv)) ckvs defaults"

subsection \<open>Config (lines 389-390, 671-678, 808-818)\<close>

text \<open>
  \<open>map[string]map[string]KVS\<close>. Every key of the outer map is taken to hold a non-nil inner
  map, as all stores built by this package do. A missing outer key reads as a nil inner
  map: no targets (\<open>tgts\<close>), and an assignment to one of its entries panics (\<open>assign\<close>).
\<close>

type_synonym Config = "string \<rightharpoonup> (string \<rightharpoonup> KVS)"

definition tgts :: "(string \<rightharpoonup> (string \<rightharpoonup> 'a)) \<Rightarrow> string \<Rightarrow> (string \<rightharpoonup> 'a)" where
  "tgts c subSys = (case c subSys of None \<Rightarrow> Map.empty | Some m \<Rightarrow> m)"

text \<open>\<open>c[subSys][tgt] = kvs\<close>.\<close>

definition assign :: "Config \<Rightarrow> string \<Rightarrow> string \<Rightarrow> KVS \<Rightarrow> error + Config" where
  "assign c subSys tgt kvs =
     (case c subSys of
        None \<Rightarrow> Inl (Panic ''assignment to entry in nil map'')
      | Some m \<Rightarrow> Inr (c(subSys \<mapsto> m(tgt \<mapsto> kvs))))"

text \<open>\<open>New\<close>: one default target per member of \<open>SubSystems\<close>, holding the registered default.\<close>

definition New :: "(string \<rightharpoonup> KVS) \<Rightarrow> Config" where
  "New DefaultKVS =
     (\<lambda>k. if k \<in> SubSystems then Some [Default \<mapsto> zget DefaultKVS k] else None)"

text \<open>\<open>Config.Clone\<close>: a new store in which every subsystem of \<open>c\<close> has a fresh inner map
  with a copy of every slice; the other subsystems are as \<open>New\<close> made them.\<close>

definition Config_Clone :: "(string \<rightharpoonup> KVS) \<Rightarrow> Config \<Rightarrow> Config" where
  "Config_Clone DefaultKVS c =
     (\<lambda>subSys. case c subSys of
        None \<Rightarrow> New DefaultKVS subSys
      | Some tgtKV \<Rightarrow> Some (\<lambda>tgt. case tgtKV tgt of None \<Rightarrow> None | Some kv \<Rightarrow> Some ([] @ kv)))"

subsection \<open>DelKVS (lines 775-806)\<close>

text \<open>Lines 792-799: the target named by the split first field.\<close>

definition DelKVS_target :: "string \<Rightarrow> string list \<Rightarrow> error + string" where
  "DelKVS_target s rest =
     (case rest of
        [sv1] \<Rightarrow>
          if length sv1 = 0
          then Inl (Error (''sub-system target '' @ apos @ s @ apos @ '' cannot be empty''))
          else Inr sv1
      | _ \<Rightarrow> Inr Default)"

text \<open>\<open>DelKVS\<close>: the returned error (\<open>None\<close> is nil) and the store after the call.\<close>

definition Config_DelKVS ::
  "(string \<rightharpoonup> (string \<rightharpoonup> 'a)) \<Rightarrow> string \<Rightarrow> error option \<times> (string \<rightharpoonup> (string \<rightharpoonup> 'a))" where
  "Config_DelKVS c s =
     (if length s = 0 then (Some (Error ''input arguments cannot be empty''), c)
      else let inputs = Fields s in
        if length inputs > 1 then (Some (Error (''invalid number of arguments '' @ s)), c)
        else (case inputs of
          [] \<Rightarrow> (Some (Panic ''index out of range [0] with length 0''), c)
        | input0 # _ \<Rightarrow>
            (case SplitN2 input0 SubSystemSeparator of
               [] \<Rightarrow> (Some (Error (''invalid number of arguments '' @ s)), c)
             | subSys # rest \<Rightarrow>
                 if subSys \<notin> SubSystems then (None, c(subSys := None))
                 else (case DelKVS_target s rest of
                   Inl err \<Rightarrow> (Some err, c)
                 | Inr tgt \<Rightarrow>
                     (case tgts c subSys tgt of
                        None \<Rightarrow> (Some (Error (''sub-system '' @ s @ '' already deleted'')), c)
                      | Some _ \<Rightarrow> (None, c(subSys \<mapsto> (tgts c subSys)(tgt := None))))))))"

subsection \<open>GetKVS (lines 680-772)\<close>

record Target =
  SubSystem :: string
  KVS :: KVS

text \<open>
  The listing branch (lines 735-769). \<open>kvsOrder\<close> is the help of the empty sub-system
  followed by the values of \<open>HelpDeprecatedSubSysMap\<close> in the order the range over that map
  gave them; \<open>rng k\<close> is the order in which the range over \<open>c[k]\<close> visits its targets.
\<close>

definition GetKVS_targets ::
  "HelpKV list \<Rightarrow> (string \<Rightarrow> string list) \<Rightarrow> Config \<Rightarrow> (string \<rightharpoonup> KVS) \<Rightarrow> string \<Rightarrow> Target list" where
  "GetKVS_targets kvsOrder rng c defaultKVS subSysPrefix =
     concat (map (\<lambda>hkv.
       if \<not> HasPrefix (HelpKV.Key hkv) subSysPrefix then []
       else (if KVS_Empty (zget (tgts c (HelpKV.Key hkv)) Default)
             then [\<lparr>SubSystem = HelpKV.Key hkv, KVS = zget defaultKVS (HelpKV.Key hkv)\<rparr>]
             else [])
          @ map (\<lambda>k.
              let kvs = backfill (zget (tgts c (HelpKV.Key hkv)) k)
                                 (zget defaultKVS (HelpKV.Key hkv))
              in if k \<noteq> Default
                 then \<lparr>SubSystem = HelpKV.Key hkv @ SubSystemSeparator # k, KVS = kvs\<rparr>
                 else \<lparr>SubSystem = HelpKV.Key hkv, KVS = kvs\<rparr>)
              (rng (HelpKV.Key hkv))) kvsOrder)"

text \<open>Lines 714-731: the branch of a query that names a target.\<close>

definition GetKVS_target ::
  "Config \<Rightarrow> string \<Rightarrow> (string \<rightharpoonup> KVS) \<Rightarrow> string \<Rightarrow> string \<Rightarrow> string \<Rightarrow> error + Target list" where
  "GetKVS_target c s defaultKVS input0 subSysPrefix sv1 =
     (if length sv1 = 0
      then Inl (Error (''sub-system target '' @ apos @ s @ apos @ '' cannot be empty''))
      else (case tgts c subSysPrefix sv1 of
              None \<Rightarrow> Inl (Error (''sub-system target '' @ apos @ s @ apos
                                   @ '' doesn'' @ apos @ ''t exist''))
            | Some kvs \<Rightarrow>
                Inr [\<lparr>SubSystem = input0,
                      KVS = backfill kvs (zget defaultKVS subSysPrefix)\<rparr>]))"

definition Config_GetKVS ::
  "(string \<rightharpoonup> HelpKV list) \<Rightarrow> HelpKV list \<Rightarrow> (string \<Rightarrow> string list) \<Rightarrow> Config \<Rightarrow> string
     \<Rightarrow> (string \<rightharpoonup> KVS) \<Rightarrow> error + Target list" where
  "Config_GetKVS HelpSubSysMap deprecated rng c s defaultKVS =
     (if length s = 0 then Inl (Error ''input cannot be empty'')
      else let inputs = Fields s in
        if length inputs > 1 then Inl (Error (''invalid number of arguments '' @ s))
        else (case inputs of
          [] \<Rightarrow> Inl (Panic ''index out of range [0] with length 0'')
        | input0 # _ \<Rightarrow>
            (case SplitN2 input0 SubSystemSeparator of
               [] \<Rightarrow> Inl (Error (''invalid number of arguments '' @ s))
             | sv0 # rest \<Rightarrow>
                 let found = (sv0 \<in> SubSystems \<or>
                              (SubSystems_FuncMatch HasPrefix sv0 \<noteq> [] \<and> length (sv0 # rest) = 1))
                 in if \<not> found then Inl (Error (''unknown sub-system '' @ s))
                    else (case rest of
                      [sv1] \<Rightarrow> GetKVS_target c s defaultKVS input0 sv0 sv1
                    | _ \<Rightarrow> Inr (GetKVS_targets (zget HelpSubSysMap [] @ deprecated)
                                                rng c defaultKVS sv0)))))"

subsection \<open>GetSubSys and SetKVS (lines 820-942)\<close>

text \<open>\<open>GetSubSys\<close> returns all four results on every path.\<close>

definition GetSubSys :: "string \<Rightarrow> string \<times> string list \<times> string \<times> error option" where
  "GetSubSys s =
     (if length s = 0 then ([], [], Default, Some (Error ''input arguments cannot be empty''))
      else let inputs = SplitN2 s KvSpaceSeparator in
        (case inputs of
          [] \<Rightarrow> ([], inputs, Default, Some (Panic ''index out of range [0] with length 0''))
        | input0 # _ \<Rightarrow>
            (case SplitN2 input0 SubSystemSeparator of
               [] \<Rightarrow> ([], inputs, Default,
                       Some (Panic ''index out of range [0] with length 0''))
             | subSys # rest \<Rightarrow>
                 if subSys \<notin> SubSystems
                 then (subSys, inputs, Default, Some (Error (''unknown sub-system '' @ s)))
                 else if length inputs = 1 then (subSys, inputs, Default, None)
                 else if subSys \<in> SubSystemsSingleTargets \<and> length (subSys # rest) = 2
                 then (subSys, inputs, Default,
                       Some (Error (''sub-system '' @ apos @ subSys @ apos
                                    @ '' only supports single target'')))
                 else (case rest of
                        [sv1] \<Rightarrow> (subSys, inputs, sv1, None)
                      | _ \<Rightarrow> (subSys, inputs, Default, None)))))"

text \<open>
  The loop over the fields (lines 863-884). \<open>SanitizeValue\<close> is \<open>madmin.SanitizeValue\<close>,
  a function of a package that is not under src: a parameter.
\<close>

fun parseFields :: "(string \<Rightarrow> string) \<Rightarrow> string list \<Rightarrow> KVS \<Rightarrow> string \<Rightarrow> error + KVS" where
  "parseFields SanitizeValue [] kvs prevK = Inr kvs"
| "parseFields SanitizeValue (v # flds) kvs prevK =
     (case SplitN2 v KvSeparator of
        [] \<Rightarrow> parseFields SanitizeValue flds kvs prevK
      | [kv0] \<Rightarrow>
          if prevK \<noteq> []
          then parseFields SanitizeValue flds
                 (KVS_Set kvs prevK (KVS_Get kvs prevK @ KvSpaceSeparator # SanitizeValue kv0))
                 prevK
          else Inl (Error (''key '' @ apos @ kv0 @ apos @ '', cannot have empty value''))
      | [kv0, kv1] \<Rightarrow>
          parseFields SanitizeValue flds (KVS_Set kvs kv0 (SanitizeValue kv1)) kv0
      | kv0 # _ \<Rightarrow>
          Inl (Error (''key '' @ apos @ kv0 @ apos @ '', cannot have empty value'')))"

text \<open>
  Lines 851-892: the directive is split, tokenised by \<open>madmin.KvFields\<close> (not under src: a
  parameter) and parsed; the result is the sub-system, the target and the requested KVS.
\<close>

definition SetKVS_parse ::
  "(string \<Rightarrow> string list \<Rightarrow> string list) \<Rightarrow> (string \<Rightarrow> string) \<Rightarrow> string \<Rightarrow> (string \<rightharpoonup> KVS)
     \<Rightarrow> error + (string \<times> string \<times> KVS)" where
  "SetKVS_parse KvFields SanitizeValue s defaultKVS =
     (case GetSubSys s of
        (subSys, inputs, tgt, Some err) \<Rightarrow> Inl err
      | (subSys, inputs, tgt, None) \<Rightarrow>
          (case inputs of
             [] \<Rightarrow> Inl (Panic ''index out of range [1] with length 0'')
           | [input0] \<Rightarrow> Inl (Panic ''index out of range [1] with length 1'')
           | input0 # input1 # _ \<Rightarrow>
               let flds = KvFields input1 (KVS_Keys (zget defaultKVS subSys)) in
               if length flds = 0
               then Inl (Error (''sub-system '' @ apos @ subSys @ apos
                                @ '' cannot have empty keys''))
               else (case parseFields SanitizeValue flds [] [] of
                      Inl err \<Rightarrow> Inl err
                    | Inr kvs \<Rightarrow>
                        let ok = snd (KVS_Lookup kvs Enable);
                            enableRequired = snd (KVS_Lookup (zget defaultKVS subSys) Enable)
                        in Inr (subSys, tgt,
                                if \<not> ok \<and> enableRequired then KVS_Set kvs Enable EnableOn
                                else kvs))))"

text \<open>Lines 894-918: \<open>currKVS\<close>, the stored entry (or the default) with the request merged in.\<close>

definition SetKVS_merge :: "Config \<Rightarrow> string \<Rightarrow> string \<Rightarrow> (string \<rightharpoonup> KVS) \<Rightarrow> KVS \<Rightarrow> KVS" where
  "SetKVS_merge c subSys tgt defaultKVS kvs =
     (let currKVS = (case tgts c subSys tgt of
                       None \<Rightarrow> KVS_Clone (zget defaultKVS subSys)
                     | Some ck \<Rightarrow> backfill (KVS_Clone ck) (zget defaultKVS subSys));
          currKVS = foldl (\<lambda>cur kv. if KV.Key kv = Comment then cur
                                     else KVS_Set cur (KV.Key kv) (Value kv)) currKVS kvs
      in (case KVS_Lookup kvs Comment of
           (v, ok) \<Rightarrow> if ok then KVS_Set currKVS Comment v else currKVS))"

text \<open>Lines 920-939: the first help key that is empty, not optional and enabled is an error.\<close>

fun SetKVS_check :: "HelpKV list \<Rightarrow> bool \<Rightarrow> KVS \<Rightarrow> string \<Rightarrow> error option" where
  "SetKVS_check [] enableRequired currKVS subSys = None"
| "SetKVS_check (hkv # hkvs) enableRequired currKVS subSys =
     (let enabled = (if enableRequired then KVS_Get currKVS Enable = EnableOn else True);
          v = fst (KVS_Lookup currKVS (HelpKV.Key hkv))
      in if v = [] \<and> \<not> Optional hkv \<and> enabled
         then Some (Error (apos @ HelpKV.Key hkv @ apos @ '' is not optional for '' @ apos
                           @ subSys @ apos @ '' sub-system, please check '' @ apos @ subSys
                           @ apos @ '' documentation''))
         else SetKVS_check hkvs enableRequired currKVS subSys)"

text \<open>\<open>SetKVS\<close>: the result and the store after the call.\<close>

definition Config_SetKVS ::
  "(string \<Rightarrow> string list \<Rightarrow> string list) \<Rightarrow> (string \<Rightarrow> string) \<Rightarrow> (string \<rightharpoonup> HelpKV list)
     \<Rightarrow> Config \<Rightarrow> string \<Rightarrow> (string \<rightharpoonup> KVS) \<Rightarrow> (error + bool) \<times> Config" where
  "Config_SetKVS KvFields SanitizeValue HelpSubSysMap c s defaultKVS =
     (case SetKVS_parse KvFields SanitizeValue s defaultKVS of
        Inl err \<Rightarrow> (Inl err, c)
      | Inr (subSys, tgt, kvs) \<Rightarrow>
          let dynamic = (subSys \<in> SubSystemsDynamic);
              enableRequired = snd (KVS_Lookup (zget defaultKVS subSys) Enable);
              currKVS = SetKVS_merge c subSys tgt defaultKVS kvs
          in (case SetKVS_check (zget HelpSubSysMap subSys) enableRequired currKVS subSys of
               Some err \<Rightarrow> (Inl err, c)
             | None \<Rightarrow>
                 (case assign c subSys tgt currKVS of
                    Inl err \<Rightarrow> (Inl err, c)
                  | Inr c' \<Rightarrow> (Inr dynamic, c'))))"

subsection \<open>Merge (lines 634-668)\<close>

text \<open>
  The inner loop over the targets of one sub-system of \<open>c\<close>, in the order \<open>ts\<close> of the
  range. The loop variable \<open>subSys\<close> is assigned in the body (line 662) and keeps the new
  value for the remaining targets.
\<close>

fun Merge_tgts :: "Config \<Rightarrow> Config \<Rightarrow> string \<Rightarrow> string list \<Rightarrow> error + Config" where
  "Merge_tgts c cp subSys [] = Inr cp"
| "Merge_tgts c cp subSys (tgt # ts) =
     (let orig = zget (tgts c subSys) tgt;
          ckvs = merge_fill orig orig (zget (tgts cp subSys) Default)
      in (case cp subSys of
           None \<Rightarrow>
             (case renamedSubsys subSys of
                None \<Rightarrow> Merge_tgts c cp subSys ts
              | Some rnSubSys \<Rightarrow>
                  (case assign cp rnSubSys tgt
                          (merge_fill orig ckvs (zget (tgts cp rnSubSys) Default)) of
                     Inl err \<Rightarrow> Inl err
                   | Inr cp' \<Rightarrow> Merge_tgts c cp' rnSubSys ts))
         | Some _ \<Rightarrow>
             (case assign cp subSys tgt ckvs of
                Inl err \<Rightarrow> Inl err
              | Inr cp' \<Rightarrow> Merge_tgts c cp' subSys ts)))"

text \<open>The outer loop: \<open>ord\<close> lists the sub-systems of \<open>c\<close> with their targets as visited.\<close>

fun Merge_subs :: "Config \<Rightarrow> Config \<Rightarrow> (string \<times> string list) list \<Rightarrow> error + Config" where
  "Merge_subs c cp [] = Inr cp"
| "Merge_subs c cp ((subSys, ts) # ord) =
     (case Merge_tgts c cp subSys ts of
        Inl err \<Rightarrow> Inl err
      | Inr cp' \<Rightarrow> Merge_subs c cp' ord)"

definition Config_Merge ::
  "(string \<rightharpoonup> KVS) \<Rightarrow> (string \<times> string list) list \<Rightarrow> Config \<Rightarrow> error + Config" where
  "Config_Merge DefaultKVS ord c = Merge_subs c (New DefaultKVS) ord"

text \<open>\<open>ord\<close> is an order in which the two nested ranges can visit the store \<open>c\<close>.\<close>

definition range_order ::
  "(string \<rightharpoonup> (string \<rightharpoonup> 'a)) \<Rightarrow> (string \<times> string list) list \<Rightarrow> bool" where
  "range_order c ord \<longleftrightarrow>
     distinct (map fst ord) \<and> set (map fst ord) = dom c \<and>
     list_all (\<lambda>(subSys, ts). distinct ts \<and> set ts = dom (tgts c subSys)) ord"

subsection \<open>RedactSensitiveInfo (lines 433-457)\<close>

text \<open>Lines 442-446: the values of one key of one slice.\<close>

definition redact :: "KVS \<Rightarrow> string \<Rightarrow> KVS" where
  "redact kvs key =
     map (\<lambda>kv. if KV.Key kv = key \<and> length (Value kv) > 0
               then kv\<lparr>Value := ''*redacted*''\<rparr> else kv) kvs"

text \<open>Lines 439-449, for one target: the sensitive help keys in their order.\<close>

definition redactAll :: "HelpKV list \<Rightarrow> KVS \<Rightarrow> KVS" where
  "redactAll hkvs kvs =
     foldl (\<lambda>k helpKV. if Sensitive helpKV then redact k (HelpKV.Key helpKV) else k) kvs hkvs"

text \<open>
  The three nested ranges write each target of the clone once per sensitive help key, and
  no target depends on another: the result is given target by target. The error of
  \<open>DelKVS\<close> is dropped, as in the source.
\<close>

definition Config_RedactSensitiveInfo ::
  "(string \<rightharpoonup> KVS) \<Rightarrow> (string \<rightharpoonup> HelpKV list) \<Rightarrow> Config \<Rightarrow> Config" where
  "Config_RedactSensitiveInfo DefaultKVS HelpSubSysMap c =
     (let nc = Config_Clone DefaultKVS c;
          nc = (\<lambda>configName. case nc configName of
                  None \<Rightarrow> None
                | Some configVals \<Rightarrow>
                    Some (\<lambda>name. case configVals name of
                            None \<Rightarrow> None
                          | Some kvs \<Rightarrow> Some (redactAll (zget HelpSubSysMap configName) kvs)))
      in snd (Config_DelKVS nc CredentialsSubSys))"

subsection \<open>ResolveConfigParam (lines 1056-1136)\<close>

definition getEnvVarName :: "(string \<Rightarrow> string) \<Rightarrow> string \<Rightarrow> string \<Rightarrow> string \<Rightarrow> string" where
  "getEnvVarName MapToUpper subSys target param =
     (if target = Default
      then EnvPrefix @ ToUpper MapToUpper subSys @ ''_'' @ ToUpper MapToUpper param
      else EnvPrefix @ ToUpper MapToUpper subSys @ ''_'' @ ToUpper MapToUpper param
             @ ''_'' @ target)"

datatype ValueSource = ValueSourceAbsent | ValueSourceDef | ValueSourceCfg | ValueSourceEnv

text \<open>
  Modelled from the spec: \<open>env.Get\<close> is a function of a package that is not under src; the
  spec has an environment-variable lookup \<open>(name, default) -> value\<close>. The environment is
  a map from names to values.
\<close>

definition env_Get :: "(string \<rightharpoonup> string) \<Rightarrow> string \<Rightarrow> string \<Rightarrow> string" where
  "env_Get env key defaultValue = (case env key of Some v \<Rightarrow> v | None \<Rightarrow> defaultValue)"

definition Config_ResolveConfigParam ::
  "(string \<Rightarrow> string) \<Rightarrow> (string \<rightharpoonup> string) \<Rightarrow> (string \<rightharpoonup> KVS) \<Rightarrow> Config \<Rightarrow> string
     \<Rightarrow> string \<Rightarrow> string \<Rightarrow> string \<times> ValueSource" where
  "Config_ResolveConfigParam MapToUpper env DefaultKVS c subSys target cfgParam =
     (if subSys \<notin> resolvableSubsystems then ([], ValueSourceAbsent)
      else (case DefaultKVS subSys of
        None \<Rightarrow> ([], ValueSourceAbsent)
      | Some defKVS \<Rightarrow>
          (case KVS_Lookup defKVS cfgParam of
             (defValue, isFound) \<Rightarrow>
               if \<not> isFound then ([], ValueSourceAbsent)
               else let target = (if target = [] then Default else target);
                        envVar = getEnvVarName MapToUpper subSys target cfgParam;
                        value = env_Get env envVar []
                    in if value \<noteq> [] then (value, ValueSourceEnv)
                       else (case c subSys of
                         None \<Rightarrow> (defValue, ValueSourceDef)
                       | Some subSysStore \<Rightarrow>
                           (case subSysStore target of
                              None \<Rightarrow> (defValue, ValueSourceDef)
                            | Some kvs \<Rightarrow>
                                (case KVS_Lookup kvs cfgParam of
                                   (value, ok3) \<Rightarrow>
                                     if ok3 then (value, ValueSourceCfg)
                                     else (defValue, ValueSourceDef)))))))"

section \<open>Slices over backing arrays\<close>

text \<open>
  \<open>SetKVS\<close> clones the stored slice (or the registered default) and writes through the
  clone with \<open>KVS.Set\<close>, which assigns to an element of the backing array or appends
  (lines 344-358). Whether a slice held by another entry or by the registry is written
  depends on which backing arrays the slices share, so this second model makes them
  explicit: a heap of backing arrays, and slices that are windows on them.
\<close>

text \<open>A slice header: the backing array, the offset of the first element in it, the length
  and the capacity. A slice of capacity 0 (the nil slice, \<open>KVS{}\<close>) reaches no element.\<close>

record slice =
  arr :: nat
  off :: nat
  len :: nat
  cap :: nat

text \<open>The backing arrays by address; the addresses below \<open>nxt\<close> are allocated.\<close>

record heap =
  arrays :: "nat \<Rightarrow> KV list"
  nxt :: nat

definition nil_slice :: slice where
  "nil_slice = \<lparr>arr = 0, off = 0, len = 0, cap = 0\<rparr>"

definition zeroKV :: KV where
  "zeroKV = \<lparr>Key = [], Value = []\<rparr>"

text \<open>The elements of a slice.\<close>

definition elems :: "heap \<Rightarrow> slice \<Rightarrow> KVS" where
  "elems h s = take (len s) (drop (off s) (arrays h (arr s)))"

text \<open>A slice lies within an allocated array.\<close>

definition slice_ok :: "heap \<Rightarrow> slice \<Rightarrow> bool" where
  "slice_ok h s \<longleftrightarrow>
     len s \<le> cap s \<and>
     (cap s = 0 \<or> (arr s < nxt h \<and> off s + cap s \<le> length (arrays h (arr s))))"

text \<open>A new array with the given contents.\<close>

definition alloc :: "heap \<Rightarrow> KV list \<Rightarrow> heap \<times> nat" where
  "alloc h xs = (h\<lparr>arrays := (arrays h)(nxt h := xs), nxt := Suc (nxt h)\<rparr>, nxt h)"

text \<open>\<open>s[i] = x\<close>.\<close>

definition store :: "heap \<Rightarrow> slice \<Rightarrow> nat \<Rightarrow> KV \<Rightarrow> heap" where
  "store h s i x = h\<lparr>arrays := (arrays h)(arr s := (arrays h (arr s))[off s + i := x])\<rparr>"

text \<open>
  \<open>append(s, x)\<close>: in place when the capacity allows, else into a new array. How much
  capacity the run time adds is not fixed by the language: \<open>grow\<close> is a parameter.
\<close>

definition h_append :: "(nat \<Rightarrow> nat) \<Rightarrow> heap \<Rightarrow> slice \<Rightarrow> KV \<Rightarrow> heap \<times> slice" where
  "h_append grow h s x =
     (if len s < cap s then (store h s (len s) x, s\<lparr>len := Suc (len s)\<rparr>)
      else case alloc h (elems h s @ [x] @ replicate (grow (len s)) zeroKV) of
             (h', a) \<Rightarrow> (h', \<lparr>arr = a, off = 0, len = Suc (len s),
                              cap = Suc (len s) + grow (len s)\<rparr>))"

text \<open>\<open>KVS.Clone\<close> (lines 274-276): a new array of capacity \<open>len(kvs)\<close> with the elements.\<close>

definition h_Clone :: "heap \<Rightarrow> slice \<Rightarrow> heap \<times> slice" where
  "h_Clone h kvs =
     (case alloc h (elems h kvs) of
        (h', a) \<Rightarrow> (h', \<lparr>arr = a, off = 0, len = len kvs, cap = len kvs\<rparr>))"

text \<open>The index of the first element with the key.\<close>

fun index_of :: "KVS \<Rightarrow> string \<Rightarrow> nat option" where
  "index_of [] key = None"
| "index_of (kv # kvs) key =
     (if KV.Key kv = key then Some 0 else map_option Suc (index_of kvs key))"

text \<open>\<open>KVS.Set\<close> (lines 344-358) on the heap.\<close>

definition h_Set :: "(nat \<Rightarrow> nat) \<Rightarrow> heap \<Rightarrow> slice \<Rightarrow> string \<Rightarrow> string \<Rightarrow> heap \<times> slice" where
  "h_Set grow h kvs key value =
     (case index_of (elems h kvs) key of
        Some i \<Rightarrow> (store h kvs i \<lparr>Key = key, Value = value\<rparr>, kvs)
      | None \<Rightarrow> h_append grow h kvs \<lparr>Key = key, Value = value\<rparr>)"

text \<open>
  Lines 900-904: the range over the default slice \<open>d\<close> reads element \<open>i\<close> from the heap as
  it is at that iteration.
\<close>

definition h_backfill :: "(nat \<Rightarrow> nat) \<Rightarrow> slice \<Rightarrow> heap \<Rightarrow> slice \<Rightarrow> heap \<times> slice" where
  "h_backfill grow d h currKVS =
     foldl (\<lambda>(h, cur) i.
              let kv = arrays h (arr d) ! (off d + i)
              in if snd (KVS_Lookup (elems h cur) (KV.Key kv)) then (h, cur)
                 else h_Set grow h cur (KV.Key kv) (Value kv))
           (h, currKVS) [0..<len d]"

text \<open>A store and a registry of slices; reading a missing key gives the nil slice.\<close>

type_synonym hConfig = "string \<rightharpoonup> (string \<rightharpoonup> slice)"

definition hzget :: "(string \<rightharpoonup> slice) \<Rightarrow> string \<Rightarrow> slice" where
  "hzget m k = (case m k of None \<Rightarrow> nil_slice | Some s \<Rightarrow> s)"

text \<open>The lists that a store and a registry of slices hold.\<close>

definition store_of :: "heap \<Rightarrow> hConfig \<Rightarrow> Config" where
  "store_of h c =
     (\<lambda>subSys. case c subSys of
        None \<Rightarrow> None
      | Some m \<Rightarrow> Some (\<lambda>tgt. case m tgt of None \<Rightarrow> None | Some s \<Rightarrow> Some (elems h s)))"

definition registry_of :: "heap \<Rightarrow> (string \<rightharpoonup> slice) \<Rightarrow> (string \<rightharpoonup> KVS)" where
  "registry_of h d = (\<lambda>k. case d k of None \<Rightarrow> None | Some s \<Rightarrow> Some (elems h s))"

text \<open>Lines 894-918 on the heap. The requested \<open>kvs\<close> is a local of \<open>SetKVS\<close> that starts as
  \<open>KVS{}\<close> and is only read here: it is its list.\<close>

definition h_SetKVS_merge ::
  "(nat \<Rightarrow> nat) \<Rightarrow> heap \<Rightarrow> hConfig \<Rightarrow> string \<Rightarrow> string \<Rightarrow> (string \<rightharpoonup> slice) \<Rightarrow> KVS
     \<Rightarrow> heap \<times> slice" where
  "h_SetKVS_merge grow h c subSys tgt defaultKVS kvs =
     (case (case tgts c subSys tgt of
              None \<Rightarrow> h_Clone h (hzget defaultKVS subSys)
            | Some ck \<Rightarrow>
                (case h_Clone h ck of
                   (h', cur) \<Rightarrow> h_backfill grow (hzget defaultKVS subSys) h' cur)) of
        (h1, currKVS) \<Rightarrow>
          (case foldl (\<lambda>(h, cur) kv. if KV.Key kv = Comment then (h, cur)
                                       else h_Set grow h cur (KV.Key kv) (Value kv))
                      (h1, currKVS) kvs of
             (h2, currKVS) \<Rightarrow>
               (case KVS_Lookup kvs Comment of
                  (v, ok) \<Rightarrow> if ok then h_Set grow h2 currKVS Comment v else (h2, currKVS))))"

text \<open>
  \<open>SetKVS\<close> on the heap: the result, the heap and the store after the call. The directive
  is parsed against the lists of the registry (the parse only reads it).
\<close>

definition h_Config_SetKVS ::
  "(string \<Rightarrow> string list \<Rightarrow> string list) \<Rightarrow> (string \<Rightarrow> string) \<Rightarrow> (string \<rightharpoonup> HelpKV list)
     \<Rightarrow> (nat \<Rightarrow> nat) \<Rightarrow> heap \<Rightarrow> hConfig \<Rightarrow> string \<Rightarrow> (string \<rightharpoonup> slice)
     \<Rightarrow> (error + bool) \<times> heap \<times> hConfig" where
  "h_Config_SetKVS KvFields SanitizeValue HelpSubSysMap grow h c s defaultKVS =
     (case SetKVS_parse KvFields SanitizeValue s (registry_of h defaultKVS) of
        Inl err \<Rightarrow> (Inl err, h, c)
      | Inr (subSys, tgt, kvs) \<Rightarrow>
          let dynamic = (subSys \<in> SubSystemsDynamic);
              enableRequired = snd (KVS_Lookup (elems h (hzget defaultKVS subSys)) Enable)
          in (case h_SetKVS_merge grow h c subSys tgt defaultKVS kvs of
                (h', currKVS) \<Rightarrow>
                  (case SetKVS_check (zget HelpSubSysMap subSys) enableRequired
                          (elems h' currKVS) subSys of
                     Some err \<Rightarrow> (Inl err, h', c)
                   | None \<Rightarrow>
                       (case c subSys of
                          None \<Rightarrow> (Inl (Panic ''assignment to entry in nil map''), h', c)
                        | Some m \<Rightarrow> (Inr dynamic, h', c(subSys \<mapsto> m(tgt \<mapsto> currKVS)))))))"

text \<open>Every slice of the store and of the registry lies within an allocated array.\<close>

definition store_ok :: "heap \<Rightarrow> hConfig \<Rightarrow> bool" where
  "store_ok h c \<longleftrightarrow> (\<forall>subSys tgt s. tgts c subSys tgt = Some s \<longrightarrow> slice_ok h s)"

definition registry_ok :: "heap \<Rightarrow> (string \<rightharpoonup> slice) \<Rightarrow> bool" where
  "registry_ok h d \<longleftrightarrow> (\<forall>k s. d k = Some s \<longrightarrow> slice_ok h s)"

text \<open>
  The invariant of the writes of \<open>SetKVS\<close>: the slice \<open>cur\<close> lies in an array allocated at
  or after \<open>n0\<close>, and the arrays below \<open>n0\<close> are as in \<open>h0\<close>.
\<close>

definition owns :: "nat \<Rightarrow> heap \<Rightarrow> heap \<Rightarrow> slice \<Rightarrow> bool" where
  "owns n0 h0 h cur \<longleftrightarrow>
     n0 \<le> nxt h \<and> n0 \<le> arr cur \<and> slice_ok h cur \<and> (\<forall>a < n0. arrays h a = arrays h0 a)"

subsection \<open>Clone and RedactSensitiveInfo on the heap\<close>

text \<open>
  \<open>RedactSensitiveInfo\<close> assigns to the \<open>Value\<close> field of elements of the slices of the
  clone (line 444). The clone of \<open>Config.Clone\<close> starts as \<open>New()\<close>, whose default targets
  hold the very slices of the registry (line 675), and gets a copy of every slice of the
  store (line 814).
\<close>

definition h_New :: "(string \<rightharpoonup> slice) \<Rightarrow> hConfig" where
  "h_New DefaultKVS =
     (\<lambda>k. if k \<in> SubSystems then Some [Default \<mapsto> hzget DefaultKVS k] else None)"

text \<open>\<open>append(nil, kv...)\<close> (line 814): nil when \<open>kv\<close> is empty, else a new array.\<close>

definition h_copy :: "(nat \<Rightarrow> nat) \<Rightarrow> heap \<Rightarrow> slice \<Rightarrow> heap \<times> slice" where
  "h_copy grow h kv =
     (if len kv = 0 then (h, nil_slice)
      else case alloc h (elems h kv @ replicate (grow (len kv)) zeroKV) of
             (h', a) \<Rightarrow> (h', \<lparr>arr = a, off = 0, len = len kv, cap = len kv + grow (len kv)\<rparr>))"

text \<open>Lines 813-815: the targets of one sub-system, in the order \<open>ts\<close> of the range.\<close>

definition h_Clone_tgts ::
  "(nat \<Rightarrow> nat) \<Rightarrow> (string \<rightharpoonup> slice) \<Rightarrow> heap \<times> (string \<rightharpoonup> slice) \<Rightarrow> string list
     \<Rightarrow> heap \<times> (string \<rightharpoonup> slice)" where
  "h_Clone_tgts grow tgtKV =
     foldl (\<lambda>(h, m) tgt. case h_copy grow h (hzget tgtKV tgt) of (h', s) \<Rightarrow> (h', m(tgt \<mapsto> s)))"

text \<open>\<open>Config.Clone\<close> (lines 809-818), the sub-systems of \<open>c\<close> in the order \<open>ord\<close>.\<close>

definition h_Config_Clone ::
  "(nat \<Rightarrow> nat) \<Rightarrow> (string \<rightharpoonup> slice) \<Rightarrow> (string \<times> string list) list \<Rightarrow> heap \<Rightarrow> hConfig
     \<Rightarrow> heap \<times> hConfig" where
  "h_Config_Clone grow DefaultKVS ord h c =
     foldl (\<lambda>(h, cp) (subSys, ts).
              case h_Clone_tgts grow (tgts c subSys) (h, Map.empty) ts of
                (h', m) \<Rightarrow> (h', cp(subSys \<mapsto> m)))
           (h, h_New DefaultKVS) ord"

text \<open>Lines 442-446: the elements of one slice, by index.\<close>

definition h_redact :: "heap \<Rightarrow> slice \<Rightarrow> string \<Rightarrow> heap" where
  "h_redact h kvs key =
     foldl (\<lambda>h i. let kv = arrays h (arr kvs) ! (off kvs + i)
                   in if KV.Key kv = key \<and> length (Value kv) > 0
                      then store h kvs i (kv\<lparr>Value := ''*redacted*''\<rparr>) else h)
           h [0..<len kvs]"

text \<open>Lines 439-449: the help keys of one sub-system, and for each sensitive one the
  targets \<open>names\<close> of the sub-system.\<close>

definition h_redact_sub :: "heap \<Rightarrow> (string \<rightharpoonup> slice) \<Rightarrow> HelpKV list \<Rightarrow> string list \<Rightarrow> heap" where
  "h_redact_sub h configVals hkvs names =
     foldl (\<lambda>h helpKV.
              if Sensitive helpKV
              then foldl (\<lambda>h name. h_redact h (hzget configVals name) (HelpKV.Key helpKV)) h names
              else h)
           h hkvs"

text \<open>
  \<open>RedactSensitiveInfo\<close> on the heap: the heap after the call and the returned store.
  \<open>ord\<close> is the order of the ranges of \<open>Clone\<close> over \<open>c\<close>, \<open>ord'\<close> that of the ranges over the
  clone.
\<close>

definition h_Config_RedactSensitiveInfo ::
  "(nat \<Rightarrow> nat) \<Rightarrow> (string \<rightharpoonup> slice) \<Rightarrow> (string \<rightharpoonup> HelpKV list) \<Rightarrow> (string \<times> string list) list
     \<Rightarrow> (string \<times> string list) list \<Rightarrow> heap \<Rightarrow> hConfig \<Rightarrow> heap \<times> hConfig" where
  "h_Config_RedactSensitiveInfo grow DefaultKVS HelpSubSysMap ord ord' h c =
     (case h_Config_Clone grow DefaultKVS ord h c of
        (h1, nc) \<Rightarrow>
          (foldl (\<lambda>h (configName, names).
                    h_redact_sub h (tgts nc configName) (zget HelpSubSysMap configName) names)
                 h1 ord',
           snd (Config_DelKVS nc CredentialsSubSys)))"

section \<open>Properties\<close>

lemmas subsys_names =
  CredentialsSubSys_def PolicyOPASubSys_def PolicyPluginSubSys_def IdentityOpenIDSubSys_def
  IdentityLDAPSubSys_def IdentityTLSSubSys_def IdentityPluginSubSys_def CacheSubSys_def
  SiteSubSys_def RegionSubSys_def EtcdSubSys_def StorageClassSubSys_def APISubSys_def
  CompressionSubSys_def LoggerWebhookSubSys_def AuditWebhookSubSys_def AuditKafkaSubSys_def
  HealSubSys_def ScannerSubSys_def CrawlerSubSys_def SubnetSubSys_def CallhomeSubSys_def
  NotifyKafkaSubSys_def NotifyMQTTSubSys_def NotifyMySQLSubSys_def NotifyNATSSubSys_def
  NotifyNSQSubSys_def NotifyESSubSys_def NotifyAMQPSubSys_def NotifyPostgresSubSys_def
  NotifyRedisSubSys_def NotifyWebhookSubSys_def

lemmas eval_defs =
  Default_def Enable_def Comment_def EnableOn_def EnableOff_def SubSystemSeparator_def
  KvSeparator_def KvSpaceSeparator_def EnvPrefix_def apos_def IsSpace_def SplitN2_def
  HasPrefix_def ToUpper_def toUpperChar_def zget_def tgts_def assign_def
  SubSystems_def SubSystemsList_def SubSystemsDynamic_def SubSystemsSingleTargets_def
  SubSystems_FuncMatch_def renamedSubsys_def resolvableSubsystems_def subsys_names

lemmas setkvs_eval =
  SetKVS_parse_def GetSubSys_def KVS_Keys_def KVS_Get_def KVS_Clone_def backfill_def
  SetKVS_merge_def Config_SetKVS_def

subsection \<open>KVS\<close>

lemma KVS_Lookup_Set_same: "KVS_Lookup (KVS_Set k key v) key = (v, True)"
  by (induction k) auto

lemma KVS_Lookup_Set_other: "key' \<noteq> key \<Longrightarrow> KVS_Lookup (KVS_Set k key v) key' = KVS_Lookup k key'"
  by (induction k) auto

lemma KVS_Lookup_found: "snd (KVS_Lookup k key) \<longleftrightarrow> key \<in> KV.Key ` set k"
  by (induction k) auto

lemma KVS_Set_keys_mem: "key \<in> KV.Key ` set k \<Longrightarrow> map KV.Key (KVS_Set k key v) = map KV.Key k"
  by (induction k) auto

lemma KVS_Set_keys_new: "key \<notin> KV.Key ` set k \<Longrightarrow> KVS_Set k key v = k @ [\<lparr>Key = key, Value = v\<rparr>]"
  by (induction k) auto

lemma KVS_Set_key_set: "KV.Key ` set (KVS_Set k key v) = insert key (KV.Key ` set k)"
  by (induction k) auto

lemma KVS_Set_length_le: "length (KVS_Set k key v) \<le> Suc (length k)"
  by (induction k) auto

lemma KVS_Set_repeat_keys:
  "map KV.Key (foldl (\<lambda>k' w. KVS_Set k' key w) (KVS_Set k key v) ws) = map KV.Key (KVS_Set k key v)"
proof (induction ws arbitrary: k v)
  case Nil
  show ?case by simp
next
  case (Cons w ws)
  have mem: "key \<in> KV.Key ` set (KVS_Set k key v)"
    by (simp add: KVS_Set_key_set)
  have "map KV.Key (foldl (\<lambda>k' w. KVS_Set k' key w) (KVS_Set (KVS_Set k key v) key w) ws)
        = map KV.Key (KVS_Set (KVS_Set k key v) key w)"
    by (rule Cons.IH)
  also have "\<dots> = map KV.Key (KVS_Set k key v)"
    using mem by (rule KVS_Set_keys_mem)
  finally show ?case by simp
qed

text \<open>The back-fill keeps the slice as a prefix and appends the defaults it lacks.\<close>

lemma backfill_Cons:
  "backfill kvs (kv # d) =
     backfill (if snd (KVS_Lookup kvs (KV.Key kv)) then kvs
               else KVS_Set kvs (KV.Key kv) (Value kv)) d"
  by (simp add: backfill_def)


lemma backfill_Lookup:
  "KVS_Lookup (backfill kvs d) key =
     (if snd (KVS_Lookup kvs key) then KVS_Lookup kvs key else KVS_Lookup d key)"
proof (induction d arbitrary: kvs)
  case Nil
  show ?case
  proof (cases "snd (KVS_Lookup kvs key)")
    case True
    then show ?thesis by (simp add: backfill_def)
  next
    case False
    then have "KVS_Lookup kvs key = ([], False)"
      by (induction kvs) auto
    then show ?thesis by (simp add: backfill_def)
  qed
next
  case (Cons kv d)
  show ?case
  proof (cases "snd (KVS_Lookup kvs (KV.Key kv))")
    case True
    then have "snd (KVS_Lookup kvs key) \<or> KV.Key kv \<noteq> key"
      by auto
    with True Cons.IH [of kvs] show ?thesis
      by (auto simp: backfill_Cons)
  next
    case False
    show ?thesis
    proof (cases "key = KV.Key kv")
      case True
      with False Cons.IH [of "KVS_Set kvs (KV.Key kv) (Value kv)"] show ?thesis
        by (simp add: backfill_Cons KVS_Lookup_Set_same)
    next
      case neq: False
      with False Cons.IH [of "KVS_Set kvs (KV.Key kv) (Value kv)"] show ?thesis
        by (auto simp: backfill_Cons KVS_Lookup_Set_other)
    qed
  qed
qed

text \<open>
  C6. After \<open>k.Set(key, v)\<close>, \<open>k.Get(key)\<close> is \<open>v\<close>. If \<open>key\<close> already occurs in \<open>k\<close>,
  \<open>Set\<close> overwrites it where it stands: the keys, and so the length, are those of \<open>k\<close>.
  Setting the same key again, any number of times and with any values, keeps the length;
  one \<open>Set\<close> adds at most one element.
\<close>

theorem KVS_Set_Get:
  "KVS_Get (KVS_Set k key v) key = v \<and>
   (key \<in> KV.Key ` set k \<longrightarrow>
      length (KVS_Set k key v) = length k \<and> map KV.Key (KVS_Set k key v) = map KV.Key k) \<and>
   length (foldl (\<lambda>k' w. KVS_Set k' key w) (KVS_Set k key v) ws) = length (KVS_Set k key v) \<and>
   length (KVS_Set k key v) \<le> Suc (length k)"
proof -
  have get: "KVS_Get (KVS_Set k key v) key = v"
    by (simp add: KVS_Get_def KVS_Lookup_Set_same)
  have pos: "key \<in> KV.Key ` set k \<longrightarrow>
      length (KVS_Set k key v) = length k \<and> map KV.Key (KVS_Set k key v) = map KV.Key k"
  proof
    assume "key \<in> KV.Key ` set k"
    then have m: "map KV.Key (KVS_Set k key v) = map KV.Key k"
      by (rule KVS_Set_keys_mem)
    then have "length (KVS_Set k key v) = length k"
      by (rule map_eq_imp_length_eq)
    with m show "length (KVS_Set k key v) = length k \<and> map KV.Key (KVS_Set k key v) = map KV.Key k"
      by simp
  qed
  have "map KV.Key (foldl (\<lambda>k' w. KVS_Set k' key w) (KVS_Set k key v) ws)
        = map KV.Key (KVS_Set k key v)"
    by (rule KVS_Set_repeat_keys)
  then have rep: "length (foldl (\<lambda>k' w. KVS_Set k' key w) (KVS_Set k key v) ws)
        = length (KVS_Set k key v)"
    by (rule map_eq_imp_length_eq)
  from get pos rep KVS_Set_length_le show ?thesis by blast
qed

theorem KVS_Set_Get_witness:
  "KVS_Get (KVS_Set [\<lparr>Key = ''name'', Value = ''a''\<rparr>, \<lparr>Key = ''region'', Value = ''b''\<rparr>] ''region'' ''c'') ''region'' = ''c'' \<and>
   ''region'' \<in> KV.Key ` set [\<lparr>Key = ''name'', Value = ''a''\<rparr>, \<lparr>Key = ''region'', Value = ''b''\<rparr>] \<and>
   length (KVS_Set [\<lparr>Key = ''name'', Value = ''a''\<rparr>, \<lparr>Key = ''region'', Value = ''b''\<rparr>] ''region'' ''c'') = 2 \<and>
   length (foldl (\<lambda>k' w. KVS_Set k' ''region'' w)
            (KVS_Set [\<lparr>Key = ''name'', Value = ''a''\<rparr>, \<lparr>Key = ''region'', Value = ''b''\<rparr>] ''region'' ''c'')
            [''d'', ''e'']) = 2"
  using KVS_Set_Get [of "[\<lparr>Key = ''name'', Value = ''a''\<rparr>, \<lparr>Key = ''region'', Value = ''b''\<rparr>]"
      "''region''" "''c''" "[''d'', ''e'']"]
  by simp

subsection \<open>ResolveConfigParam\<close>

lemma getEnvVarName_shape:
  "getEnvVarName MapToUpper subSys t param =
     EnvPrefix @ ToUpper MapToUpper subSys @ ''_'' @ ToUpper MapToUpper param
       @ (if t = Default then [] else ''_'' @ t)"
  by (simp add: getEnvVarName_def)

lemma env_Get_empty: "env_Get env name [] \<noteq> [] \<longleftrightarrow> (\<exists>e. env name = Some e \<and> e \<noteq> [])"
  by (simp add: env_Get_def split: option.splits)

text \<open>
  C1, amended. \<open>ResolveConfigParam\<close> reads the empty target name as the default target
  \<open>_\<close> (lines 1107-1109); with \<open>t\<close> the target so read, the variable is named
  \<open>PREFIX + upper(subSys) + "_" + upper(param)\<close>, followed by \<open>"_" + t\<close> when \<open>t\<close> is not the
  default target. For a sub-system of the allow-list and a parameter declared in its
  default KVS: a set and non-empty variable gives its value with source \<open>Env\<close>; otherwise
  the value stored by the entry \<open>(subSys, t)\<close>, when it has the parameter, with source
  \<open>Config\<close>; otherwise the default with source \<open>Default\<close>. A sub-system outside the
  allow-list, one without a registered default KVS, and a parameter the default KVS lacks
  give the empty value with source \<open>Absent\<close>.
\<close>

theorem ResolveConfigParam_precedence:
  assumes t: "t = (if target = [] then Default else target)"
    and name: "name = getEnvVarName MapToUpper subSys t param"
    and R: "R = Config_ResolveConfigParam MapToUpper env DefaultKVS c subSys target param"
  shows
    "name = EnvPrefix @ ToUpper MapToUpper subSys @ ''_'' @ ToUpper MapToUpper param
              @ (if t = Default then [] else ''_'' @ t) \<and>
     (subSys \<in> resolvableSubsystems \<longrightarrow>
        (\<forall>defKVS d. DefaultKVS subSys = Some defKVS \<and> KVS_Lookup defKVS param = (d, True) \<longrightarrow>
           (\<forall>e. env name = Some e \<and> e \<noteq> [] \<longrightarrow> R = (e, ValueSourceEnv)) \<and>
           (env name = None \<or> env name = Some [] \<longrightarrow>
              (\<forall>kvs v. tgts c subSys t = Some kvs \<and> KVS_Lookup kvs param = (v, True) \<longrightarrow>
                 R = (v, ValueSourceCfg)) \<and>
              (tgts c subSys t = None \<or>
               (\<exists>kvs. tgts c subSys t = Some kvs \<and> \<not> snd (KVS_Lookup kvs param)) \<longrightarrow>
                 R = (d, ValueSourceDef))))) \<and>
     (subSys \<notin> resolvableSubsystems \<longrightarrow> R = ([], ValueSourceAbsent)) \<and>
     (DefaultKVS subSys = None \<or>
      (\<exists>defKVS. DefaultKVS subSys = Some defKVS \<and> \<not> snd (KVS_Lookup defKVS param)) \<longrightarrow>
        R = ([], ValueSourceAbsent))"
proof (intro conjI impI allI)
  show "name = EnvPrefix @ ToUpper MapToUpper subSys @ ''_'' @ ToUpper MapToUpper param
              @ (if t = Default then [] else ''_'' @ t)"
    unfolding name by (rule getEnvVarName_shape)
next
  assume "subSys \<notin> resolvableSubsystems"
  then show "R = ([], ValueSourceAbsent)"
    by (simp add: R Config_ResolveConfigParam_def)
next
  assume "DefaultKVS subSys = None \<or>
      (\<exists>defKVS. DefaultKVS subSys = Some defKVS \<and> \<not> snd (KVS_Lookup defKVS param))"
  then show "R = ([], ValueSourceAbsent)"
    by (auto simp: R Config_ResolveConfigParam_def split: prod.splits)
next
  fix defKVS d e
  assume "subSys \<in> resolvableSubsystems"
    and "DefaultKVS subSys = Some defKVS \<and> KVS_Lookup defKVS param = (d, True)"
    and "env name = Some e \<and> e \<noteq> []"
  then show "R = (e, ValueSourceEnv)"
    by (simp add: R Config_ResolveConfigParam_def Let_def env_Get_def t [symmetric] name [symmetric])
next
  fix defKVS d kvs v
  assume "subSys \<in> resolvableSubsystems"
    and "DefaultKVS subSys = Some defKVS \<and> KVS_Lookup defKVS param = (d, True)"
    and "env name = None \<or> env name = Some []"
    and "tgts c subSys t = Some kvs \<and> KVS_Lookup kvs param = (v, True)"
  then show "R = (v, ValueSourceCfg)"
    by (auto simp: R Config_ResolveConfigParam_def Let_def env_Get_def tgts_def
          t [symmetric] name [symmetric] split: option.splits)
next
  fix defKVS d
  assume "subSys \<in> resolvableSubsystems"
    and "DefaultKVS subSys = Some defKVS \<and> KVS_Lookup defKVS param = (d, True)"
    and "env name = None \<or> env name = Some []"
    and "tgts c subSys t = None \<or>
         (\<exists>kvs. tgts c subSys t = Some kvs \<and> \<not> snd (KVS_Lookup kvs param))"
  then show "R = (d, ValueSourceDef)"
    by (auto simp: R Config_ResolveConfigParam_def Let_def env_Get_def tgts_def
          t [symmetric] name [symmetric] split: option.splits prod.splits)
qed

theorem ResolveConfigParam_precedence_witness:
  "Config_ResolveConfigParam (\<lambda>s. s) [''MINIO_IDENTITY_OPENID_CLIENT_ID'' \<mapsto> ''E'']
     [IdentityOpenIDSubSys \<mapsto> [\<lparr>Key = ''client_id'', Value = ''D''\<rparr>]]
     [IdentityOpenIDSubSys \<mapsto> [Default \<mapsto> [\<lparr>Key = ''client_id'', Value = ''C''\<rparr>]]]
     IdentityOpenIDSubSys Default ''client_id'' = (''E'', ValueSourceEnv) \<and>
   Config_ResolveConfigParam (\<lambda>s. s) Map.empty
     [IdentityOpenIDSubSys \<mapsto> [\<lparr>Key = ''client_id'', Value = ''D''\<rparr>]]
     [IdentityOpenIDSubSys \<mapsto> [Default \<mapsto> [\<lparr>Key = ''client_id'', Value = ''C''\<rparr>]]]
     IdentityOpenIDSubSys Default ''client_id'' = (''C'', ValueSourceCfg) \<and>
   Config_ResolveConfigParam (\<lambda>s. s) Map.empty
     [IdentityOpenIDSubSys \<mapsto> [\<lparr>Key = ''client_id'', Value = ''D''\<rparr>]]
     Map.empty
     IdentityOpenIDSubSys ''primary'' ''client_id'' = (''D'', ValueSourceDef)"
  using
    ResolveConfigParam_precedence [OF refl refl refl,
      where MapToUpper = "\<lambda>s. s" and env = "[''MINIO_IDENTITY_OPENID_CLIENT_ID'' \<mapsto> ''E'']"
        and DefaultKVS = "[IdentityOpenIDSubSys \<mapsto> [\<lparr>Key = ''client_id'', Value = ''D''\<rparr>]]"
        and c = "[IdentityOpenIDSubSys \<mapsto> [Default \<mapsto> [\<lparr>Key = ''client_id'', Value = ''C''\<rparr>]]]"
        and subSys = IdentityOpenIDSubSys and target = Default and param = "''client_id''"]
    ResolveConfigParam_precedence [OF refl refl refl,
      where MapToUpper = "\<lambda>s. s" and env = Map.empty
        and DefaultKVS = "[IdentityOpenIDSubSys \<mapsto> [\<lparr>Key = ''client_id'', Value = ''D''\<rparr>]]"
        and c = "[IdentityOpenIDSubSys \<mapsto> [Default \<mapsto> [\<lparr>Key = ''client_id'', Value = ''C''\<rparr>]]]"
        and subSys = IdentityOpenIDSubSys and target = Default and param = "''client_id''"]
    ResolveConfigParam_precedence [OF refl refl refl,
      where MapToUpper = "\<lambda>s. s" and env = Map.empty
        and DefaultKVS = "[IdentityOpenIDSubSys \<mapsto> [\<lparr>Key = ''client_id'', Value = ''D''\<rparr>]]"
        and c = Map.empty
        and subSys = IdentityOpenIDSubSys and target = "''primary''" and param = "''client_id''"]
  by (simp add: eval_defs getEnvVarName_def)

text \<open>
  C1 as stated fails at the empty target name, which is not the sentinel \<open>_\<close>: the
  variable the claim names for it (with the suffix \<open>"_" + ""\<close>) is unset and the entry of the
  empty target holds the parameter with value C, so the claim gives C with source
  \<open>Config\<close>; the code reads the unsuffixed variable and gives E with source \<open>Env\<close>.
\<close>

theorem ResolveConfigParam_empty_target_counterexample:
  "IdentityOpenIDSubSys \<in> resolvableSubsystems \<and>
   KVS_Lookup [\<lparr>Key = ''client_id'', Value = ''D''\<rparr>] ''client_id'' = (''D'', True) \<and>
   [''MINIO_IDENTITY_OPENID_CLIENT_ID'' \<mapsto> ''E'']
     (EnvPrefix @ ToUpper (\<lambda>s. s) IdentityOpenIDSubSys @ ''_'' @ ToUpper (\<lambda>s. s) ''client_id'' @ ''_'' @ []) = None \<and>
   tgts [IdentityOpenIDSubSys \<mapsto> [[] \<mapsto> [\<lparr>Key = ''client_id'', Value = ''C''\<rparr>]]]
     IdentityOpenIDSubSys [] = Some [\<lparr>Key = ''client_id'', Value = ''C''\<rparr>] \<and>
   KVS_Lookup [\<lparr>Key = ''client_id'', Value = ''C''\<rparr>] ''client_id'' = (''C'', True) \<and>
   Config_ResolveConfigParam (\<lambda>s. s) [''MINIO_IDENTITY_OPENID_CLIENT_ID'' \<mapsto> ''E'']
     [IdentityOpenIDSubSys \<mapsto> [\<lparr>Key = ''client_id'', Value = ''D''\<rparr>]]
     [IdentityOpenIDSubSys \<mapsto> [[] \<mapsto> [\<lparr>Key = ''client_id'', Value = ''C''\<rparr>]]]
     IdentityOpenIDSubSys [] ''client_id'' = (''E'', ValueSourceEnv) \<and>
   Config_ResolveConfigParam (\<lambda>s. s) [''MINIO_IDENTITY_OPENID_CLIENT_ID'' \<mapsto> ''E'']
     [IdentityOpenIDSubSys \<mapsto> [\<lparr>Key = ''client_id'', Value = ''D''\<rparr>]]
     [IdentityOpenIDSubSys \<mapsto> [[] \<mapsto> [\<lparr>Key = ''client_id'', Value = ''C''\<rparr>]]]
     IdentityOpenIDSubSys [] ''client_id'' \<noteq> (''C'', ValueSourceCfg)"
  by (simp add: eval_defs getEnvVarName_def Config_ResolveConfigParam_def env_Get_def)

subsection \<open>Strings\<close>

lemma DecodeRune_ascii:
  "(of_char c :: nat) < 0x80 \<Longrightarrow> DecodeRune (c # cs) = (of_char c, 1)"
  by (simp add: DecodeRune_def)

text \<open>The encodings of U+00A0 and of U+2003 are decoded as such.\<close>

lemma DecodeRune_nbsp: "DecodeRune (CHR 0xC2 # CHR 0xA0 # cs) = (0xA0, 2)"
  by (simp add: DecodeRune_def)

lemma DecodeRune_em_space: "DecodeRune (CHR 0xE2 # CHR 0x80 # CHR 0x83 # cs) = (0x2003, 3)"
  by (simp add: DecodeRune_def)

lemma FieldsFunc_scan_plain:
  assumes "\<forall>c \<in> set s. (of_char c :: nat) < 0x80 \<and> \<not> IsSpace (of_char c)"
  shows "FieldsFunc_scan IsSpace s (Some fld) = [fld @ s]"
  using assms
proof (induction s arbitrary: fld)
  case Nil
  show ?case by simp
next
  case (Cons c cs)
  from Cons.prems have c: "(of_char c :: nat) < 0x80" "\<not> IsSpace (of_char c)"
    and cs: "\<forall>c \<in> set cs. (of_char c :: nat) < 0x80 \<and> \<not> IsSpace (of_char c)"
    by simp_all
  have "FieldsFunc_scan IsSpace (c # cs) (Some fld) = FieldsFunc_scan IsSpace cs (Some (fld @ [c]))"
    using c by (simp add: DecodeRune_ascii)
  also have "\<dots> = [(fld @ [c]) @ cs]"
    using cs by (rule Cons.IH)
  finally show ?case by simp
qed

text \<open>A non-empty string of bytes below 0x80 without white space is one field.\<close>

lemma Fields_plain:
  assumes "s \<noteq> []" and "\<forall>c \<in> set s. (of_char c :: nat) < 0x80 \<and> \<not> IsSpace (of_char c)"
  shows "Fields s = [s]"
proof (cases s)
  case Nil
  with assms show ?thesis by simp
next
  case (Cons c cs)
  with assms have c: "(of_char c :: nat) < 0x80" "\<not> IsSpace (of_char c)"
    and cs: "\<forall>c \<in> set cs. (of_char c :: nat) < 0x80 \<and> \<not> IsSpace (of_char c)"
    by simp_all
  have "FieldsFunc_scan IsSpace (c # cs) None = FieldsFunc_scan IsSpace cs (Some [c])"
    using c by (simp add: DecodeRune_ascii)
  also have "\<dots> = [[c] @ cs]"
    using cs by (rule FieldsFunc_scan_plain)
  finally show ?thesis
    using Cons by (simp add: Fields_def FieldsFunc_def)
qed

text \<open>White space that is not ASCII splits and trims as well.\<close>

lemma Fields_nbsp: "Fields (''ab'' @ [CHR 0xC2, CHR 0xA0]) = [''ab'']"
  by (simp add: Fields_def FieldsFunc_def DecodeRune_ascii DecodeRune_nbsp IsSpace_def)

lemma Fields_em_space:
  "Fields (''a'' @ [CHR 0xE2, CHR 0x80, CHR 0x83] @ ''b'') = [''a'', ''b'']"
  by (simp add: Fields_def FieldsFunc_def DecodeRune_ascii DecodeRune_em_space IsSpace_def)

lemma SplitN2_absent: "sep \<notin> set s \<Longrightarrow> SplitN2 s sep = [s]"
  by (simp add: SplitN2_def)

lemma SplitN2_first:
  assumes "sep \<notin> set a"
  shows "SplitN2 (a @ sep # b) sep = [a, b]"
proof -
  from assms have all: "\<forall>x \<in> set a. x \<noteq> sep"
    by auto
  then have tw: "takeWhile (\<lambda>c. c \<noteq> sep) (a @ sep # b) = a"
    by simp
  from all have dw: "dropWhile (\<lambda>c. c \<noteq> sep) (a @ sep # b) = sep # b"
    by simp
  show ?thesis
    unfolding SplitN2_def tw dw by simp
qed

text \<open>The letters of the names of this package are plain bytes: no white space among them.\<close>

lemma plain_chars:
  "c \<in> set ''abcdefghijklmnopqrstuvwxyz_:'' \<Longrightarrow>
     (of_char c :: nat) < 0x80 \<and> \<not> IsSpace (of_char c)"
  by (auto simp: IsSpace_def)

lemma Fields_alphabet:
  assumes "s \<noteq> []" and "list_all (\<lambda>c. c \<in> set ''abcdefghijklmnopqrstuvwxyz_:'') s"
  shows "Fields s = [s]"
proof -
  from assms(2) have "\<forall>c \<in> set s. c \<in> set ''abcdefghijklmnopqrstuvwxyz_:''"
    by (simp only: list_all_iff)
  with plain_chars have "\<forall>c \<in> set s. (of_char c :: nat) < 0x80 \<and> \<not> IsSpace (of_char c)"
    by blast
  with assms(1) show ?thesis
    by (rule Fields_plain)
qed

lemma SubSystems_alphabet:
  "list_all (\<lambda>s. s \<noteq> [] \<and> list_all (\<lambda>c. c \<in> set ''abcdefghijklmnopqrstuvwxyz_'') s) SubSystemsList"
  by (simp add: SubSystemsList_def subsys_names)

lemma SubSystems_plain:
  assumes "s \<in> SubSystems"
  shows "s \<noteq> [] \<and> KvSpaceSeparator \<notin> set s \<and> SubSystemSeparator \<notin> set s
     \<and> list_all (\<lambda>c. c \<in> set ''abcdefghijklmnopqrstuvwxyz_:'') s"
proof -
  define A where "A = set ''abcdefghijklmnopqrstuvwxyz_''"
  define B where "B = set ''abcdefghijklmnopqrstuvwxyz_:''"
  have sp: "CHR '' '' \<notin> A" and co: "CHR '':'' \<notin> A" and sub: "A \<subseteq> B"
    by (simp_all add: A_def B_def)
  have all: "\<forall>x \<in> set SubSystemsList. x \<noteq> [] \<and> (\<forall>c \<in> set x. c \<in> A)"
    using SubSystems_alphabet unfolding list_all_iff A_def .
  from assms have "s \<in> set SubSystemsList"
    by (simp only: SubSystems_def)
  with all have ne: "s \<noteq> []" and al: "set s \<subseteq> A"
    by blast+
  from al sp have "CHR '' '' \<notin> set s"
    by blast
  moreover from al co have "CHR '':'' \<notin> set s"
    by blast
  moreover from al sub have "\<forall>c \<in> set s. c \<in> B"
    by blast
  ultimately show ?thesis
    using ne by (simp only: KvSpaceSeparator_def SubSystemSeparator_def list_all_iff B_def simp_thms)
qed

lemma SubSystems_Fields: "s \<in> SubSystems \<Longrightarrow> Fields s = [s]"
  using SubSystems_plain [of s] by (simp add: Fields_alphabet)

subsection \<open>GetSubSys\<close>

lemma GetSubSys_bare:
  assumes "s \<in> SubSystems"
  shows "GetSubSys s = (s, [s], Default, None)"
proof -
  from assms have ne: "s \<noteq> []" and sp: "KvSpaceSeparator \<notin> set s"
    and co: "SubSystemSeparator \<notin> set s"
    using SubSystems_plain by blast+
  show ?thesis
    using ne assms by (simp add: GetSubSys_def SplitN2_absent [OF sp] SplitN2_absent [OF co])
qed

text \<open>
  C8 fails on the code. For a directive that is a registered sub-system name alone,
  \<open>GetSubSys\<close> returns without error and with \<open>inputs\<close> of length one (lines 834-836);
  \<open>SetKVS\<close> then reads \<open>inputs[1]\<close> (line 858) and panics, before the test for an empty
  list of fields (line 859) that would give the error the claim names.
\<close>

theorem SetKVS_bare_subsystem_panics:
  assumes "s \<in> SubSystems"
  shows "Config_SetKVS KvFields SanitizeValue HelpSubSysMap c s defaultKVS
           = (Inl (Panic ''index out of range [1] with length 1''), c)"
  by (simp add: Config_SetKVS_def SetKVS_parse_def GetSubSys_bare [OF assms])

theorem SetKVS_bare_subsystem_panics_witness:
  "SiteSubSys \<in> SubSystems \<and>
   Config_SetKVS (\<lambda>input keys. []) (\<lambda>v. v) Map.empty (New Map.empty) ''site'' Map.empty
     = (Inl (Panic ''index out of range [1] with length 1''), New Map.empty)"
proof -
  have m: "SiteSubSys \<in> SubSystems"
    by (simp add: eval_defs)
  from SetKVS_bare_subsystem_panics [OF m] m show ?thesis
    by (simp add: SiteSubSys_def)
qed

subsection \<open>GetKVS\<close>








subsection \<open>DelKVS\<close>

lemma Default_nonempty: "Default \<noteq> []"
  by (simp add: Default_def)

lemma tgts_upd_same: "tgts (c(subSys \<mapsto> m)) subSys = m"
  by (simp add: tgts_def)

lemma tgts_upd_other: "s' \<noteq> subSys \<Longrightarrow> tgts (c(subSys := x)) s' = tgts c s'"
  by (simp add: tgts_def)

lemma tgts_removed: "tgts (c(subSys := None)) subSys = Map.empty"
  by (simp add: tgts_def)

lemma SubSystems_default_query:
  assumes "subSys \<in> SubSystems"
  shows "Fields (subSys @ SubSystemSeparator # Default) = [subSys @ SubSystemSeparator # Default]"
proof -
  from SubSystems_plain [OF assms]
  have "list_all (\<lambda>c. c \<in> set ''abcdefghijklmnopqrstuvwxyz_:'') subSys"
    by simp
  then have "list_all (\<lambda>c. c \<in> set ''abcdefghijklmnopqrstuvwxyz_:'')
      (subSys @ SubSystemSeparator # Default)"
    by (simp add: SubSystemSeparator_def Default_def)
  then show ?thesis
    by (intro Fields_alphabet) simp_all
qed

text \<open>
  C5, amended. The directive \<open>s\<close> is one field, a sub-system name alone (the target is then
  the default target) or \<open>subSys:tgt\<close>. If the sub-system is not registered, \<open>DelKVS\<close>
  succeeds and removes the sub-system with all its targets, the addressed one among them.
  If it is registered and the target is given and empty (\<open>subSys:\<close>), the error is "cannot
  be empty" and the store is unchanged, whether the store has an entry for the empty
  target or not. If it is registered, the target is not empty and the entry is absent,
  the error is "already deleted" and the store is unchanged. If the entry is present,
  \<open>DelKVS\<close> succeeds, removes that entry and no other, and \<open>GetKVS\<close> of \<open>subSys:tgt\<close> on
  the new store returns the "doesn't exist" error.
\<close>

theorem DelKVS_cases:
  assumes fs: "Fields s = [s]"
    and nosep: "SubSystemSeparator \<notin> set subSys"
    and dir: "(s = subSys \<and> tgt = Default) \<or> s = subSys @ SubSystemSeparator # tgt"
    and q: "q = subSys @ SubSystemSeparator # tgt"
    and c': "c' = c(subSys \<mapsto> (tgts c subSys)(tgt := None))"
  shows
    "(subSys \<notin> SubSystems \<longrightarrow>
        Config_DelKVS c s = (None, c(subSys := None)) \<and>
        tgts (c(subSys := None)) subSys tgt = None) \<and>
     (subSys \<in> SubSystems \<and> tgt = [] \<longrightarrow>
        Config_DelKVS c s
          = (Some (Error (''sub-system target '' @ apos @ s @ apos @ '' cannot be empty'')), c)) \<and>
     (subSys \<in> SubSystems \<and> tgt \<noteq> [] \<and> tgts c subSys tgt = None \<longrightarrow>
        Config_DelKVS c s = (Some (Error (''sub-system '' @ s @ '' already deleted'')), c)) \<and>
     (subSys \<in> SubSystems \<and> tgt \<noteq> [] \<and> tgts c subSys tgt \<noteq> None \<longrightarrow>
        Config_DelKVS c s = (None, c') \<and>
        tgts c' subSys tgt = None \<and>
        (\<forall>s' t'. (s', t') \<noteq> (subSys, tgt) \<longrightarrow> tgts c' s' t' = tgts c s' t') \<and>
        Config_GetKVS HelpSubSysMap deprecated rng c' q defaultKVS
          = Inl (Error (''sub-system target '' @ apos @ q @ apos @ '' doesn'' @ apos @ ''t exist'')))"
proof -
  from fs have s_ne: "s \<noteq> []"
    by (auto simp: Fields_def FieldsFunc_def)
  have split: "SplitN2 s SubSystemSeparator = [subSys] \<and> tgt = Default \<or>
               SplitN2 s SubSystemSeparator = [subSys, tgt]"
    using dir nosep by (auto simp: SplitN2_absent SplitN2_first)
  have unreg: "subSys \<notin> SubSystems \<Longrightarrow> Config_DelKVS c s = (None, c(subSys := None))"
    using split s_ne by (auto simp: Config_DelKVS_def fs)
  have empty: "subSys \<in> SubSystems \<Longrightarrow> tgt = [] \<Longrightarrow>
      Config_DelKVS c s
        = (Some (Error (''sub-system target '' @ apos @ s @ apos @ '' cannot be empty'')), c)"
    using split s_ne Default_nonempty by (auto simp: Config_DelKVS_def fs DelKVS_target_def)
  have target: "tgt \<noteq> [] \<Longrightarrow>
      \<exists>rest. SplitN2 s SubSystemSeparator = subSys # rest \<and> DelKVS_target s rest = Inr tgt"
    using split by (auto simp: DelKVS_target_def)
  have del: "subSys \<in> SubSystems \<Longrightarrow> tgt \<noteq> [] \<Longrightarrow> Config_DelKVS c s =
      (case tgts c subSys tgt of
         None \<Rightarrow> (Some (Error (''sub-system '' @ s @ '' already deleted'')), c)
       | Some x \<Rightarrow> (None, c'))"
  proof -
    assume reg: "subSys \<in> SubSystems" and ne: "tgt \<noteq> []"
    from target [OF ne] obtain rest where sp: "SplitN2 s SubSystemSeparator = subSys # rest"
      and tg: "DelKVS_target s rest = Inr tgt"
      by blast
    show ?thesis
      unfolding Config_DelKVS_def c' using s_ne reg by (simp add: fs sp tg)
  qed
  have gone: "tgts c' subSys tgt = None"
    by (simp add: c' tgts_def)
  have frame: "\<forall>s' t'. (s', t') \<noteq> (subSys, tgt) \<longrightarrow> tgts c' s' t' = tgts c s' t'"
    by (auto simp: c' tgts_def)
  have get: "subSys \<in> SubSystems \<Longrightarrow> tgt \<noteq> [] \<Longrightarrow>
      Config_GetKVS HelpSubSysMap deprecated rng c' q defaultKVS
        = Inl (Error (''sub-system target '' @ apos @ q @ apos @ '' doesn'' @ apos @ ''t exist''))"
  proof -
    assume reg: "subSys \<in> SubSystems" and ne: "tgt \<noteq> []"
    have fq: "Fields q = [q]"
    proof (cases "s = q")
      case True
      with fs show ?thesis by simp
    next
      case False
      with dir q have "tgt = Default"
        by auto
      with SubSystems_default_query [OF reg] q show ?thesis
        by simp
    qed
    have sq: "SplitN2 q SubSystemSeparator = [subSys, tgt]"
      unfolding q using nosep by (rule SplitN2_first)
    have q_ne: "q \<noteq> []"
      by (simp add: q)
    show ?thesis
      using q_ne ne gone reg by (simp add: Config_GetKVS_def fq sq GetKVS_target_def)
  qed
  show ?thesis
    using unreg empty del gone get frame by (auto simp: tgts_removed)
qed


theorem DelKVS_cases_witness:
  "fst (Config_DelKVS
       [NotifyWebhookSubSys \<mapsto> [''primary'' \<mapsto> [\<lparr>Key = ''endpoint'', Value = ''http://h''\<rparr>],
                                Default \<mapsto> [\<lparr>Key = Enable, Value = EnableOff\<rparr>]],
        NotifyKafkaSubSys \<mapsto> [Default \<mapsto> [\<lparr>Key = ''brokers'', Value = ''b''\<rparr>]],
        ''legacy'' \<mapsto> [''old'' \<mapsto> [\<lparr>Key = ''k'', Value = ''v''\<rparr>]]]
       ''notify_webhook:primary'') = None \<and>
   tgts (snd (Config_DelKVS
       [NotifyWebhookSubSys \<mapsto> [''primary'' \<mapsto> [\<lparr>Key = ''endpoint'', Value = ''http://h''\<rparr>],
                                Default \<mapsto> [\<lparr>Key = Enable, Value = EnableOff\<rparr>]],
        NotifyKafkaSubSys \<mapsto> [Default \<mapsto> [\<lparr>Key = ''brokers'', Value = ''b''\<rparr>]],
        ''legacy'' \<mapsto> [''old'' \<mapsto> [\<lparr>Key = ''k'', Value = ''v''\<rparr>]]]
       ''notify_webhook:primary'')) NotifyWebhookSubSys ''primary'' = None \<and>
   tgts (snd (Config_DelKVS
       [NotifyWebhookSubSys \<mapsto> [''primary'' \<mapsto> [\<lparr>Key = ''endpoint'', Value = ''http://h''\<rparr>],
                                Default \<mapsto> [\<lparr>Key = Enable, Value = EnableOff\<rparr>]],
        NotifyKafkaSubSys \<mapsto> [Default \<mapsto> [\<lparr>Key = ''brokers'', Value = ''b''\<rparr>]],
        ''legacy'' \<mapsto> [''old'' \<mapsto> [\<lparr>Key = ''k'', Value = ''v''\<rparr>]]]
       ''notify_webhook:primary'')) NotifyWebhookSubSys Default
     = Some [\<lparr>Key = Enable, Value = EnableOff\<rparr>] \<and>
   tgts (snd (Config_DelKVS
       [NotifyWebhookSubSys \<mapsto> [''primary'' \<mapsto> [\<lparr>Key = ''endpoint'', Value = ''http://h''\<rparr>],
                                Default \<mapsto> [\<lparr>Key = Enable, Value = EnableOff\<rparr>]],
        NotifyKafkaSubSys \<mapsto> [Default \<mapsto> [\<lparr>Key = ''brokers'', Value = ''b''\<rparr>]],
        ''legacy'' \<mapsto> [''old'' \<mapsto> [\<lparr>Key = ''k'', Value = ''v''\<rparr>]]]
       ''notify_webhook:primary'')) NotifyKafkaSubSys Default
     = Some [\<lparr>Key = ''brokers'', Value = ''b''\<rparr>] \<and>
   Config_GetKVS Map.empty [] (\<lambda>k. [])
       (snd (Config_DelKVS
          [NotifyWebhookSubSys \<mapsto> [''primary'' \<mapsto> [\<lparr>Key = ''endpoint'', Value = ''http://h''\<rparr>],
                                Default \<mapsto> [\<lparr>Key = Enable, Value = EnableOff\<rparr>]],
        NotifyKafkaSubSys \<mapsto> [Default \<mapsto> [\<lparr>Key = ''brokers'', Value = ''b''\<rparr>]],
        ''legacy'' \<mapsto> [''old'' \<mapsto> [\<lparr>Key = ''k'', Value = ''v''\<rparr>]]]
          ''notify_webhook:primary''))
       ''notify_webhook:primary'' Map.empty
     = Inl (Error (''sub-system target '' @ apos @ ''notify_webhook:primary'' @ apos
                   @ '' doesn'' @ apos @ ''t exist'')) \<and>
   fst (Config_DelKVS
       [NotifyWebhookSubSys \<mapsto> [''primary'' \<mapsto> [\<lparr>Key = ''endpoint'', Value = ''http://h''\<rparr>],
                                Default \<mapsto> [\<lparr>Key = Enable, Value = EnableOff\<rparr>]],
        NotifyKafkaSubSys \<mapsto> [Default \<mapsto> [\<lparr>Key = ''brokers'', Value = ''b''\<rparr>]],
        ''legacy'' \<mapsto> [''old'' \<mapsto> [\<lparr>Key = ''k'', Value = ''v''\<rparr>]]]
       ''notify_webhook:secondary'')
     = Some (Error ''sub-system notify_webhook:secondary already deleted'') \<and>
   tgts (snd (Config_DelKVS
       [NotifyWebhookSubSys \<mapsto> [''primary'' \<mapsto> [\<lparr>Key = ''endpoint'', Value = ''http://h''\<rparr>],
                                Default \<mapsto> [\<lparr>Key = Enable, Value = EnableOff\<rparr>]],
        NotifyKafkaSubSys \<mapsto> [Default \<mapsto> [\<lparr>Key = ''brokers'', Value = ''b''\<rparr>]],
        ''legacy'' \<mapsto> [''old'' \<mapsto> [\<lparr>Key = ''k'', Value = ''v''\<rparr>]]]
       ''notify_webhook:secondary'')) NotifyWebhookSubSys ''primary''
     = Some [\<lparr>Key = ''endpoint'', Value = ''http://h''\<rparr>] \<and>
   fst (Config_DelKVS
       [NotifyWebhookSubSys \<mapsto> [''primary'' \<mapsto> [\<lparr>Key = ''endpoint'', Value = ''http://h''\<rparr>],
                                Default \<mapsto> [\<lparr>Key = Enable, Value = EnableOff\<rparr>]],
        NotifyKafkaSubSys \<mapsto> [Default \<mapsto> [\<lparr>Key = ''brokers'', Value = ''b''\<rparr>]],
        ''legacy'' \<mapsto> [''old'' \<mapsto> [\<lparr>Key = ''k'', Value = ''v''\<rparr>]]]
       ''notify_kafka'') = None \<and>
   tgts (snd (Config_DelKVS
       [NotifyWebhookSubSys \<mapsto> [''primary'' \<mapsto> [\<lparr>Key = ''endpoint'', Value = ''http://h''\<rparr>],
                                Default \<mapsto> [\<lparr>Key = Enable, Value = EnableOff\<rparr>]],
        NotifyKafkaSubSys \<mapsto> [Default \<mapsto> [\<lparr>Key = ''brokers'', Value = ''b''\<rparr>]],
        ''legacy'' \<mapsto> [''old'' \<mapsto> [\<lparr>Key = ''k'', Value = ''v''\<rparr>]]]
       ''notify_kafka'')) NotifyKafkaSubSys Default = None \<and>
   Config_GetKVS Map.empty [] (\<lambda>k. [])
       (snd (Config_DelKVS
          [NotifyWebhookSubSys \<mapsto> [''primary'' \<mapsto> [\<lparr>Key = ''endpoint'', Value = ''http://h''\<rparr>],
                                Default \<mapsto> [\<lparr>Key = Enable, Value = EnableOff\<rparr>]],
        NotifyKafkaSubSys \<mapsto> [Default \<mapsto> [\<lparr>Key = ''brokers'', Value = ''b''\<rparr>]],
        ''legacy'' \<mapsto> [''old'' \<mapsto> [\<lparr>Key = ''k'', Value = ''v''\<rparr>]]]
          ''notify_kafka''))
       ''notify_kafka:_'' Map.empty
     = Inl (Error (''sub-system target '' @ apos @ ''notify_kafka:_'' @ apos
                   @ '' doesn'' @ apos @ ''t exist'')) \<and>
   fst (Config_DelKVS
       [NotifyWebhookSubSys \<mapsto> [''primary'' \<mapsto> [\<lparr>Key = ''endpoint'', Value = ''http://h''\<rparr>],
                                Default \<mapsto> [\<lparr>Key = Enable, Value = EnableOff\<rparr>]],
        NotifyKafkaSubSys \<mapsto> [Default \<mapsto> [\<lparr>Key = ''brokers'', Value = ''b''\<rparr>]],
        ''legacy'' \<mapsto> [''old'' \<mapsto> [\<lparr>Key = ''k'', Value = ''v''\<rparr>]]]
       ''legacy:old'') = None \<and>
   tgts (snd (Config_DelKVS
       [NotifyWebhookSubSys \<mapsto> [''primary'' \<mapsto> [\<lparr>Key = ''endpoint'', Value = ''http://h''\<rparr>],
                                Default \<mapsto> [\<lparr>Key = Enable, Value = EnableOff\<rparr>]],
        NotifyKafkaSubSys \<mapsto> [Default \<mapsto> [\<lparr>Key = ''brokers'', Value = ''b''\<rparr>]],
        ''legacy'' \<mapsto> [''old'' \<mapsto> [\<lparr>Key = ''k'', Value = ''v''\<rparr>]]]
       ''legacy:old'')) ''legacy'' ''old'' = None \<and>
   fst (Config_DelKVS
       [NotifyWebhookSubSys \<mapsto> [''primary'' \<mapsto> [\<lparr>Key = ''endpoint'', Value = ''http://h''\<rparr>],
                                Default \<mapsto> [\<lparr>Key = Enable, Value = EnableOff\<rparr>]],
        NotifyKafkaSubSys \<mapsto> [Default \<mapsto> [\<lparr>Key = ''brokers'', Value = ''b''\<rparr>]],
        ''legacy'' \<mapsto> [''old'' \<mapsto> [\<lparr>Key = ''k'', Value = ''v''\<rparr>]]]
       ''notify_webhook:'')
     = Some (Error (''sub-system target '' @ apos @ ''notify_webhook:'' @ apos @ '' cannot be empty''))"
proof -
  let ?c = "[NotifyWebhookSubSys \<mapsto> [''primary'' \<mapsto> [\<lparr>Key = ''endpoint'', Value = ''http://h''\<rparr>],
                                Default \<mapsto> [\<lparr>Key = Enable, Value = EnableOff\<rparr>]],
        NotifyKafkaSubSys \<mapsto> [Default \<mapsto> [\<lparr>Key = ''brokers'', Value = ''b''\<rparr>]],
        ''legacy'' \<mapsto> [''old'' \<mapsto> [\<lparr>Key = ''k'', Value = ''v''\<rparr>]]]"
  have f: "Fields ''notify_webhook:primary'' = [''notify_webhook:primary'']"
    "Fields ''notify_webhook:secondary'' = [''notify_webhook:secondary'']"
    "Fields ''notify_kafka'' = [''notify_kafka'']"
    "Fields ''legacy:old'' = [''legacy:old'']"
    "Fields ''notify_webhook:'' = [''notify_webhook:'']"
    by (simp_all add: Fields_alphabet)
  have n: "SubSystemSeparator \<notin> set ''notify_webhook''"
    "SubSystemSeparator \<notin> set ''notify_kafka''"
    "SubSystemSeparator \<notin> set ''legacy''"
    by (simp_all add: SubSystemSeparator_def)
  have d1: "(''notify_webhook:primary'' = ''notify_webhook'' \<and> ''primary'' = Default) \<or>
            ''notify_webhook:primary'' = ''notify_webhook'' @ SubSystemSeparator # ''primary''"
    and d2: "(''notify_webhook:secondary'' = ''notify_webhook'' \<and> ''secondary'' = Default) \<or>
            ''notify_webhook:secondary'' = ''notify_webhook'' @ SubSystemSeparator # ''secondary''"
    and d3: "(''notify_kafka'' = ''notify_kafka'' \<and> Default = Default) \<or>
            ''notify_kafka'' = ''notify_kafka'' @ SubSystemSeparator # Default"
    and d4: "(''legacy:old'' = ''legacy'' \<and> ''old'' = Default) \<or>
            ''legacy:old'' = ''legacy'' @ SubSystemSeparator # ''old''"
    and d5: "(''notify_webhook:'' = ''notify_webhook'' \<and> [] = Default) \<or>
            ''notify_webhook:'' = ''notify_webhook'' @ SubSystemSeparator # []"
    by (simp_all add: SubSystemSeparator_def)
  from
    DelKVS_cases [OF f(1) n(1) d1 refl refl, of ?c Map.empty "[]" "\<lambda>k. []" Map.empty]
    DelKVS_cases [OF f(2) n(1) d2 refl refl, of ?c Map.empty "[]" "\<lambda>k. []" Map.empty]
    DelKVS_cases [OF f(3) n(2) d3 refl refl, of ?c Map.empty "[]" "\<lambda>k. []" Map.empty]
    DelKVS_cases [OF f(4) n(3) d4 refl refl, of ?c Map.empty "[]" "\<lambda>k. []" Map.empty]
    DelKVS_cases [OF f(5) n(1) d5 refl refl, of ?c Map.empty "[]" "\<lambda>k. []" Map.empty]
  show ?thesis
    by (simp add: eval_defs)
qed

text \<open>
  C5 as stated fails at the directive \<open>notify_webhook:\<close>. \<open>SetKVS\<close> of
  \<open>notify_webhook: endpoint=http://h\<close> creates the entry of the empty target. With that
  entry present, \<open>DelKVS\<close> returns the "cannot be empty" error and the entry stays, where
  the claim has it removed; with the entry absent the error is the same one, not "already
  deleted".
\<close>

theorem DelKVS_empty_target_counterexample:
  "tgts (snd (Config_SetKVS (\<lambda>input keys. [input]) (\<lambda>v. v) Map.empty
            [NotifyWebhookSubSys \<mapsto> Map.empty]
            ''notify_webhook: endpoint=http://h'' Map.empty)) NotifyWebhookSubSys []
     = Some [\<lparr>Key = ''endpoint'', Value = ''http://h''\<rparr>] \<and>
   Fields ''notify_webhook:'' = [''notify_webhook:''] \<and>
   tgts [NotifyWebhookSubSys \<mapsto> [[] \<mapsto> [\<lparr>Key = ''endpoint'', Value = ''http://h''\<rparr>]]] NotifyWebhookSubSys []
     = Some [\<lparr>Key = ''endpoint'', Value = ''http://h''\<rparr>] \<and>
   fst (Config_DelKVS
       [NotifyWebhookSubSys \<mapsto> [[] \<mapsto> [\<lparr>Key = ''endpoint'', Value = ''http://h''\<rparr>]]]
       ''notify_webhook:'')
     = Some (Error (''sub-system target '' @ apos @ ''notify_webhook:'' @ apos @ '' cannot be empty'')) \<and>
   tgts (snd (Config_DelKVS
       [NotifyWebhookSubSys \<mapsto> [[] \<mapsto> [\<lparr>Key = ''endpoint'', Value = ''http://h''\<rparr>]]]
       ''notify_webhook:'')) NotifyWebhookSubSys []
     = Some [\<lparr>Key = ''endpoint'', Value = ''http://h''\<rparr>] \<and>
   tgts ([NotifyWebhookSubSys \<mapsto> Map.empty] :: Config) NotifyWebhookSubSys [] = None \<and>
   fst (Config_DelKVS ([NotifyWebhookSubSys \<mapsto> Map.empty] :: Config) ''notify_webhook:'')
     = Some (Error (''sub-system target '' @ apos @ ''notify_webhook:'' @ apos @ '' cannot be empty'')) \<and>
   fst (Config_DelKVS ([NotifyWebhookSubSys \<mapsto> Map.empty] :: Config) ''notify_webhook:'')
     \<noteq> Some (Error ''sub-system notify_webhook: already deleted'')"
  by (simp add: Config_DelKVS_def DelKVS_target_def Fields_alphabet setkvs_eval eval_defs)

subsection \<open>Slices and lists\<close>

lemma index_of_None: "index_of k key = None \<longleftrightarrow> key \<notin> KV.Key ` set k"
  by (induction k) auto

lemma index_of_Some:
  "index_of k key = Some i \<Longrightarrow> i < length k \<and> KVS_Set k key v = k[i := \<lparr>Key = key, Value = v\<rparr>]"
  by (induction k arbitrary: i) (auto split: if_splits)

lemma elems_length: "slice_ok h s \<Longrightarrow> length (elems h s) = len s"
  by (auto simp: slice_ok_def elems_def)

lemma elems_nth:
  "slice_ok h s \<Longrightarrow> i < len s \<Longrightarrow> elems h s ! i = arrays h (arr s) ! (off s + i)"
  by (auto simp: slice_ok_def elems_def)

lemma elems_nil: "elems h nil_slice = []"
  by (simp add: elems_def nil_slice_def)

lemma nil_slice_ok: "slice_ok h nil_slice"
  by (simp add: slice_ok_def nil_slice_def)

lemma elems_store:
  assumes "slice_ok h s" and "i < len s"
  shows "elems (store h s i x) s = (elems h s)[i := x]"
proof -
  have "drop (off s) ((arrays h (arr s))[off s + i := x]) = (drop (off s) (arrays h (arr s)))[i := x]"
    by (simp add: drop_update_swap)
  then show ?thesis
    by (simp add: elems_def store_def take_update_swap)
qed

lemma elems_same:
  assumes "slice_ok h0 s" and "\<forall>a < nxt h0. arrays h a = arrays h0 a"
  shows "elems h s = elems h0 s"
proof (cases "cap s = 0")
  case True
  with assms(1) have "len s = 0" by (simp add: slice_ok_def)
  then show ?thesis by (simp add: elems_def)
next
  case False
  with assms(1) have "arr s < nxt h0" by (simp add: slice_ok_def)
  with assms(2) have "arrays h (arr s) = arrays h0 (arr s)" by simp
  then show ?thesis by (simp add: elems_def)
qed

lemma slice_ok_same:
  assumes "slice_ok h0 s" and "\<forall>a < nxt h0. arrays h a = arrays h0 a" and "nxt h0 \<le> nxt h"
  shows "slice_ok h s"
  using assms by (auto simp: slice_ok_def)

subsection \<open>Writes through a slice that owns its array\<close>

lemma elems_alloc:
  "length xs = n \<Longrightarrow>
     elems (h\<lparr>arrays := (arrays h)(a := xs @ ys), nxt := k\<rparr>) \<lparr>arr = a, off = 0, len = n, cap = m\<rparr> = xs"
  by (simp add: elems_def)

lemma h_Clone_owns:
  assumes "slice_ok h s" and "h_Clone h s = (h', cur)"
  shows "owns (nxt h) h h' cur \<and> elems h' cur = elems h s"
proof -
  define xs where "xs = elems h s"
  from assms(2) have h': "h' = h\<lparr>arrays := (arrays h)(nxt h := xs @ []), nxt := Suc (nxt h)\<rparr>"
    and cur: "cur = \<lparr>arr = nxt h, off = 0, len = len s, cap = len s\<rparr>"
    by (auto simp: h_Clone_def alloc_def xs_def)
  have l: "length xs = len s"
    unfolding xs_def using assms(1) by (rule elems_length)
  have e: "elems h' cur = xs"
    unfolding h' cur using l by (rule elems_alloc)
  have "owns (nxt h) h h' cur"
    using l by (simp add: owns_def slice_ok_def h' cur)
  with e show ?thesis by (simp add: xs_def)
qed

lemma h_append_owns:
  assumes "owns n0 h0 h cur" and "h_append grow h cur x = (h', cur')"
  shows "owns n0 h0 h' cur' \<and> elems h' cur' = elems h cur @ [x]"
proof (cases "len cur < cap cur")
  case True
  with assms(2) have h': "h' = store h cur (len cur) x" and cur': "cur' = cur\<lparr>len := Suc (len cur)\<rparr>"
    by (auto simp: h_append_def)
  from assms(1) True have b: "off cur + cap cur \<le> length (arrays h (arr cur))"
    and a: "arr cur < nxt h" and n: "n0 \<le> arr cur" "n0 \<le> nxt h"
    and fr: "\<forall>a < n0. arrays h a = arrays h0 a"
    by (auto simp: owns_def slice_ok_def)
  have lt: "len cur < length (drop (off cur) (arrays h (arr cur)))"
    using b True by simp
  have "elems h' cur' = take (Suc (len cur)) ((drop (off cur) (arrays h (arr cur)))[len cur := x])"
    by (simp add: elems_def h' cur' store_def drop_update_swap)
  also have "\<dots> = take (len cur) (drop (off cur) (arrays h (arr cur))) @ [x]"
    using lt by (simp add: take_Suc_conv_app_nth)
  finally have e: "elems h' cur' = elems h cur @ [x]"
    by (simp add: elems_def)
  have "owns n0 h0 h' cur'"
    using True a b n fr by (auto simp: owns_def slice_ok_def h' cur' store_def)
  with e show ?thesis by simp
next
  case False
  define xs where "xs = elems h cur @ [x]"
  from False assms(2) have
    h': "h' = h\<lparr>arrays := (arrays h)(nxt h := xs @ replicate (grow (len cur)) zeroKV),
               nxt := Suc (nxt h)\<rparr>"
    and cur': "cur' = \<lparr>arr = nxt h, off = 0, len = Suc (len cur), cap = Suc (len cur) + grow (len cur)\<rparr>"
    by (auto simp: h_append_def alloc_def xs_def)
  from assms(1) have ok: "slice_ok h cur" and n: "n0 \<le> nxt h"
    and fr: "\<forall>a < n0. arrays h a = arrays h0 a"
    by (auto simp: owns_def)
  have l: "length xs = Suc (len cur)"
    by (simp add: xs_def elems_length [OF ok])
  have e: "elems h' cur' = xs"
    unfolding h' cur' using l by (rule elems_alloc)
  have "owns n0 h0 h' cur'"
    using n fr l by (auto simp: owns_def slice_ok_def h' cur')
  with e show ?thesis by (simp add: xs_def)
qed

lemma h_Set_owns:
  assumes "owns n0 h0 h cur" and "h_Set grow h cur key v = (h', cur')"
  shows "owns n0 h0 h' cur' \<and> elems h' cur' = KVS_Set (elems h cur) key v"
proof (cases "index_of (elems h cur) key")
  case None
  then have "key \<notin> KV.Key ` set (elems h cur)"
    by (simp add: index_of_None)
  then have s: "KVS_Set (elems h cur) key v = elems h cur @ [\<lparr>Key = key, Value = v\<rparr>]"
    by (rule KVS_Set_keys_new)
  from None assms(2) have "h_append grow h cur \<lparr>Key = key, Value = v\<rparr> = (h', cur')"
    by (simp add: h_Set_def)
  from h_append_owns [OF assms(1) this] s show ?thesis by simp
next
  case (Some i)
  from assms(1) have ok: "slice_ok h cur" and n: "n0 \<le> nxt h" "n0 \<le> arr cur"
    and fr: "\<forall>a < n0. arrays h a = arrays h0 a"
    by (auto simp: owns_def)
  from index_of_Some [OF Some] have i: "i < length (elems h cur)"
    and s: "KVS_Set (elems h cur) key v = (elems h cur)[i := \<lparr>Key = key, Value = v\<rparr>]"
    by auto
  from i have il: "i < len cur"
    by (simp add: elems_length [OF ok])
  from Some assms(2) have h': "h' = store h cur i \<lparr>Key = key, Value = v\<rparr>" and cur': "cur' = cur"
    by (auto simp: h_Set_def)
  have e: "elems h' cur' = KVS_Set (elems h cur) key v"
    by (simp add: h' cur' s elems_store [OF ok il])
  have "owns n0 h0 h' cur'"
    using ok n fr by (auto simp: owns_def slice_ok_def h' cur' store_def)
  with e show ?thesis by simp
qed


lemma h_backfill_fold:
  assumes d: "slice_ok h0 d" and n0: "n0 = nxt h0"
  shows "owns n0 h0 h cur \<Longrightarrow> \<forall>i \<in> set is. i < len d \<Longrightarrow>
     foldl (\<lambda>(h, cur) i.
              let kv = arrays h (arr d) ! (off d + i)
              in if snd (KVS_Lookup (elems h cur) (KV.Key kv)) then (h, cur)
                 else h_Set grow h cur (KV.Key kv) (Value kv)) (h, cur) is = (h', cur') \<Longrightarrow>
     owns n0 h0 h' cur' \<and>
     elems h' cur' =
       foldl (\<lambda>k kv. if snd (KVS_Lookup k (KV.Key kv)) then k
                      else KVS_Set k (KV.Key kv) (Value kv))
             (elems h cur) (map (\<lambda>i. elems h0 d ! i) is)"
proof (induction "is" arbitrary: h cur)
  case Nil
  then show ?case by simp
next
  case (Cons i "is")
  from Cons.prems(2) have i: "i < len d" and rest: "\<forall>j \<in> set is. j < len d"
    by simp_all
  from i d have "arr d < nxt h0"
    by (auto simp: slice_ok_def)
  with Cons.prems(1) n0 have "arrays h (arr d) = arrays h0 (arr d)"
    by (simp add: owns_def)
  then have kv: "arrays h (arr d) ! (off d + i) = elems h0 d ! i"
    by (simp add: elems_nth [OF d i])
  define kv where "kv = elems h0 d ! i"
  obtain h1 cur1 where step:
    "(if snd (KVS_Lookup (elems h cur) (KV.Key kv)) then (h, cur)
      else h_Set grow h cur (KV.Key kv) (Value kv)) = (h1, cur1)"
    by (cases "if snd (KVS_Lookup (elems h cur) (KV.Key kv)) then (h, cur)
      else h_Set grow h cur (KV.Key kv) (Value kv)") auto
  have own1: "owns n0 h0 h1 cur1 \<and>
      elems h1 cur1 = (if snd (KVS_Lookup (elems h cur) (KV.Key kv)) then elems h cur
                       else KVS_Set (elems h cur) (KV.Key kv) (Value kv))"
  proof (cases "snd (KVS_Lookup (elems h cur) (KV.Key kv))")
    case True
    with step Cons.prems(1) show ?thesis by auto
  next
    case False
    with step have "h_Set grow h cur (KV.Key kv) (Value kv) = (h1, cur1)"
      by simp
    from h_Set_owns [OF Cons.prems(1) this] False show ?thesis by simp
  qed
  from Cons.prems(3) have fold:
    "foldl (\<lambda>(h, cur) i.
              let kv = arrays h (arr d) ! (off d + i)
              in if snd (KVS_Lookup (elems h cur) (KV.Key kv)) then (h, cur)
                 else h_Set grow h cur (KV.Key kv) (Value kv)) (h1, cur1) is = (h', cur')"
    using step by (simp add: kv kv_def [symmetric])
  from Cons.IH [OF _ rest fold] own1 show ?case
    by (simp add: kv_def)
qed

lemma h_backfill_owns:
  assumes "owns (nxt h0) h0 h cur" and "slice_ok h0 d" and "h_backfill grow d h cur = (h', cur')"
  shows "owns (nxt h0) h0 h' cur' \<and> elems h' cur' = backfill (elems h cur) (elems h0 d)"
proof -
  have idx: "\<forall>i \<in> set [0..<len d]. i < len d"
    by simp
  have "map (\<lambda>i. elems h0 d ! i) [0..<len d] = elems h0 d"
    using elems_length [OF assms(2)] by (metis map_nth)
  with h_backfill_fold [OF assms(2) refl assms(1) idx assms(3) [unfolded h_backfill_def]]
  show ?thesis
    by (simp add: backfill_def)
qed

lemma h_merge_fold:
  "owns n0 h0 h cur \<Longrightarrow>
     foldl (\<lambda>(h, cur) kv. if KV.Key kv = Comment then (h, cur)
                            else h_Set grow h cur (KV.Key kv) (Value kv)) (h, cur) kvs = (h', cur') \<Longrightarrow>
     owns n0 h0 h' cur' \<and>
     elems h' cur' =
       foldl (\<lambda>cur kv. if KV.Key kv = Comment then cur
                        else KVS_Set cur (KV.Key kv) (Value kv)) (elems h cur) kvs"
proof (induction kvs arbitrary: h cur)
  case Nil
  then show ?case by simp
next
  case (Cons kv kvs)
  show ?case
  proof (cases "KV.Key kv = Comment")
    case True
    with Cons.prems(2) have
      "foldl (\<lambda>(h, cur) kv. if KV.Key kv = Comment then (h, cur)
                            else h_Set grow h cur (KV.Key kv) (Value kv)) (h, cur) kvs = (h', cur')"
      by simp
    from Cons.IH [OF Cons.prems(1) this] True show ?thesis by simp
  next
    case False
    obtain h1 cur1 where step: "h_Set grow h cur (KV.Key kv) (Value kv) = (h1, cur1)"
      by (cases "h_Set grow h cur (KV.Key kv) (Value kv)") auto
    from h_Set_owns [OF Cons.prems(1) step] have own1: "owns n0 h0 h1 cur1"
      and e1: "elems h1 cur1 = KVS_Set (elems h cur) (KV.Key kv) (Value kv)"
      by simp_all
    from Cons.prems(2) False step have
      "foldl (\<lambda>(h, cur) kv. if KV.Key kv = Comment then (h, cur)
                            else h_Set grow h cur (KV.Key kv) (Value kv)) (h1, cur1) kvs = (h', cur')"
      by simp
    from Cons.IH [OF own1 this] False e1 show ?thesis by simp
  qed
qed

subsection \<open>The heap model of SetKVS and the list model\<close>

lemma tgts_store_of:
  "tgts (store_of h c) subSys tgt = map_option (elems h) (tgts c subSys tgt)"
  by (simp add: tgts_def store_of_def split: option.splits)

lemma zget_registry_of: "zget (registry_of h d) k = elems h (hzget d k)"
  by (simp add: zget_def hzget_def registry_of_def elems_nil split: option.splits)

lemma hzget_ok: "registry_ok h d \<Longrightarrow> slice_ok h (hzget d k)"
  by (simp add: registry_ok_def hzget_def nil_slice_ok split: option.splits)

lemma h_SetKVS_merge_owns:
  assumes c: "store_ok h c" and d: "registry_ok h d"
    and m: "h_SetKVS_merge grow h c subSys tgt d kvs = (h', cur)"
  shows "owns (nxt h) h h' cur \<and>
         elems h' cur = SetKVS_merge (store_of h c) subSys tgt (registry_of h d) kvs"
proof -
  have dk: "slice_ok h (hzget d subSys)"
    using d by (rule hzget_ok)
  obtain h1 cur1 where first:
    "(case tgts c subSys tgt of
        None \<Rightarrow> h_Clone h (hzget d subSys)
      | Some ck \<Rightarrow> (case h_Clone h ck of
                      (h', cur) \<Rightarrow> h_backfill grow (hzget d subSys) h' cur)) = (h1, cur1)"
    by (cases "case tgts c subSys tgt of
        None \<Rightarrow> h_Clone h (hzget d subSys)
      | Some ck \<Rightarrow> (case h_Clone h ck of
                      (h', cur) \<Rightarrow> h_backfill grow (hzget d subSys) h' cur)") auto
  have own1: "owns (nxt h) h h1 cur1 \<and>
      elems h1 cur1 = (case tgts (store_of h c) subSys tgt of
                         None \<Rightarrow> KVS_Clone (zget (registry_of h d) subSys)
                       | Some ck \<Rightarrow> backfill (KVS_Clone ck) (zget (registry_of h d) subSys))"
  proof (cases "tgts c subSys tgt")
    case None
    with first have "h_Clone h (hzget d subSys) = (h1, cur1)"
      by simp
    from h_Clone_owns [OF dk this] None show ?thesis
      by (simp add: tgts_store_of zget_registry_of KVS_Clone_def)
  next
    case (Some ck)
    with c have ck: "slice_ok h ck"
      by (auto simp: store_ok_def)
    obtain h0' cur0 where cl: "h_Clone h ck = (h0', cur0)"
      by (cases "h_Clone h ck") auto
    from h_Clone_owns [OF ck cl] have own0: "owns (nxt h) h h0' cur0"
      and e0: "elems h0' cur0 = elems h ck"
      by simp_all
    from first Some cl have "h_backfill grow (hzget d subSys) h0' cur0 = (h1, cur1)"
      by simp
    from h_backfill_owns [OF own0 dk this] Some e0 show ?thesis
      by (simp add: tgts_store_of zget_registry_of KVS_Clone_def)
  qed
  obtain h2 cur2 where second:
    "foldl (\<lambda>(h, cur) kv. if KV.Key kv = Comment then (h, cur)
                            else h_Set grow h cur (KV.Key kv) (Value kv)) (h1, cur1) kvs = (h2, cur2)"
    by (cases "foldl (\<lambda>(h, cur) kv. if KV.Key kv = Comment then (h, cur)
                            else h_Set grow h cur (KV.Key kv) (Value kv)) (h1, cur1) kvs") auto
  from own1 have o1: "owns (nxt h) h h1 cur1" by simp
  from h_merge_fold [OF o1 second] have own2: "owns (nxt h) h h2 cur2"
    and e2: "elems h2 cur2 =
       foldl (\<lambda>cur kv. if KV.Key kv = Comment then cur
                        else KVS_Set cur (KV.Key kv) (Value kv)) (elems h1 cur1) kvs"
    by simp_all
  obtain v ok where lk: "KVS_Lookup kvs Comment = (v, ok)"
    by (cases "KVS_Lookup kvs Comment") auto
  from m first second lk have last: "(if ok then h_Set grow h2 cur2 Comment v else (h2, cur2)) = (h', cur)"
    by (simp add: h_SetKVS_merge_def)
  have "owns (nxt h) h h' cur \<and>
        elems h' cur = (if ok then KVS_Set (elems h2 cur2) Comment v else elems h2 cur2)"
  proof (cases ok)
    case True
    with last have "h_Set grow h2 cur2 Comment v = (h', cur)" by simp
    from h_Set_owns [OF own2 this] True show ?thesis by simp
  next
    case False
    with last own2 show ?thesis by auto
  qed
  with e2 own1 lk show ?thesis
    by (simp add: SetKVS_merge_def Let_def)
qed

lemma store_okD:
  assumes "store_ok h c" and "c subSys = Some m" and "m tgt = Some s"
  shows "slice_ok h s"
proof -
  have "tgts c subSys tgt = Some s"
    using assms(2,3) by (simp add: tgts_def)
  with assms(1) show ?thesis
    unfolding store_ok_def by blast
qed

lemma store_of_same:
  assumes "store_ok h c" and "\<forall>a < nxt h. arrays h' a = arrays h a"
  shows "store_of h' c = store_of h c"
proof (rule ext)
  fix subSys
  show "store_of h' c subSys = store_of h c subSys"
  proof (cases "c subSys")
    case None
    then show ?thesis by (simp add: store_of_def)
  next
    case (Some m)
    have "\<And>tgt s. m tgt = Some s \<Longrightarrow> elems h' s = elems h s"
    proof -
      fix tgt s
      assume "m tgt = Some s"
      with Some assms(1) have "slice_ok h s"
        by (auto intro: store_okD)
      then show "elems h' s = elems h s"
        using assms(2) by (rule elems_same)
    qed
    then have "(\<lambda>tgt. case m tgt of None \<Rightarrow> None | Some s \<Rightarrow> Some (elems h' s))
             = (\<lambda>tgt. case m tgt of None \<Rightarrow> None | Some s \<Rightarrow> Some (elems h s))"
      by (auto split: option.splits)
    with Some show ?thesis by (simp add: store_of_def)
  qed
qed

lemma registry_of_same:
  assumes "registry_ok h d" and "\<forall>a < nxt h. arrays h' a = arrays h a"
  shows "registry_of h' d = registry_of h d"
proof (rule ext)
  fix k
  show "registry_of h' d k = registry_of h d k"
  proof (cases "d k")
    case None
    then show ?thesis by (simp add: registry_of_def)
  next
    case (Some s)
    with assms(1) have "slice_ok h s"
      by (auto simp: registry_ok_def)
    then have "elems h' s = elems h s"
      using assms(2) by (rule elems_same)
    with Some show ?thesis by (simp add: registry_of_def)
  qed
qed

lemma store_of_update:
  assumes "c subSys = Some m" and "store_of h' c = store_of h c"
  shows "store_of h' (c(subSys \<mapsto> m(tgt \<mapsto> cur)))
           = (store_of h c)(subSys \<mapsto> (tgts (store_of h c) subSys)(tgt \<mapsto> elems h' cur))"
proof (rule ext)
  fix k
  show "store_of h' (c(subSys \<mapsto> m(tgt \<mapsto> cur))) k
          = ((store_of h c)(subSys \<mapsto> (tgts (store_of h c) subSys)(tgt \<mapsto> elems h' cur))) k"
  proof (cases "k = subSys")
    case False
    have "store_of h' (c(subSys \<mapsto> m(tgt \<mapsto> cur))) k = store_of h' c k"
      using False by (simp add: store_of_def)
    with assms(2) False show ?thesis by simp
  next
    case True
    have "store_of h' c subSys = store_of h c subSys"
      using assms(2) by simp
    with assms(1) have old:
      "(\<lambda>t. case m t of None \<Rightarrow> None | Some s \<Rightarrow> Some (elems h' s))
         = (\<lambda>t. case m t of None \<Rightarrow> None | Some s \<Rightarrow> Some (elems h s))"
      by (simp add: store_of_def)
    have t: "tgts (store_of h c) subSys
         = (\<lambda>t. case m t of None \<Rightarrow> None | Some s \<Rightarrow> Some (elems h s))"
      using assms(1) by (simp add: tgts_def store_of_def)
    have "(\<lambda>t. case (m(tgt \<mapsto> cur)) t of None \<Rightarrow> None | Some s \<Rightarrow> Some (elems h' s))
         = (\<lambda>t. case m t of None \<Rightarrow> None | Some s \<Rightarrow> Some (elems h' s))(tgt \<mapsto> elems h' cur)"
      by (rule ext) simp
    with old t True show ?thesis
      by (simp add: store_of_def)
  qed
qed

text \<open>
  The heap model refines the list model: on the lists that the store and the registry
  hold, \<open>SetKVS\<close> of the list model gives the same result and the lists of the new store.
  No array allocated before the call is written.
\<close>

lemma h_SetKVS_refines:
  assumes c: "store_ok h c" and d: "registry_ok h d"
    and call: "h_Config_SetKVS KvFields SanitizeValue HelpSubSysMap grow h c s d = (r, h', c')"
  shows "Config_SetKVS KvFields SanitizeValue HelpSubSysMap (store_of h c) s (registry_of h d)
           = (r, store_of h' c') \<and>
         (\<forall>a < nxt h. arrays h' a = arrays h a) \<and> nxt h \<le> nxt h'"
proof (cases "SetKVS_parse KvFields SanitizeValue s (registry_of h d)")
  case (Inl err)
  with call have "r = Inl err" "h' = h" "c' = c"
    by (simp_all add: h_Config_SetKVS_def)
  with Inl show ?thesis
    by (simp add: Config_SetKVS_def)
next
  case (Inr p)
  obtain subSys tgt kvs where p: "p = (subSys, tgt, kvs)"
    by (cases p) auto
  obtain h1 cur where m: "h_SetKVS_merge grow h c subSys tgt d kvs = (h1, cur)"
    by (cases "h_SetKVS_merge grow h c subSys tgt d kvs") auto
  from h_SetKVS_merge_owns [OF c d m] have own: "owns (nxt h) h h1 cur"
    and e: "elems h1 cur = SetKVS_merge (store_of h c) subSys tgt (registry_of h d) kvs"
    by simp_all
  from own have fr: "\<forall>a < nxt h. arrays h1 a = arrays h a" and nx: "nxt h \<le> nxt h1"
    by (simp_all add: owns_def)
  have st: "store_of h1 c = store_of h c"
    using c fr by (rule store_of_same)
  define chk where "chk = SetKVS_check (zget HelpSubSysMap subSys)
      (snd (KVS_Lookup (elems h (hzget d subSys)) Enable)) (elems h1 cur) subSys"
  show ?thesis
  proof (cases chk)
    case (Some err)
    with call Inr p m have "r = Inl err" "h' = h1" "c' = c"
      by (simp_all add: h_Config_SetKVS_def chk_def)
    with Inr p Some e st fr nx show ?thesis
      by (simp add: Config_SetKVS_def chk_def zget_registry_of)
  next
    case None
    show ?thesis
    proof (cases "c subSys")
      case cn: None
      with call Inr p m None have "r = Inl (Panic ''assignment to entry in nil map'')"
        "h' = h1" "c' = c"
        by (simp_all add: h_Config_SetKVS_def chk_def)
      moreover from cn have "store_of h c subSys = None"
        by (simp add: store_of_def)
      ultimately show ?thesis
        using Inr p None e st fr nx
        by (simp add: Config_SetKVS_def chk_def zget_registry_of assign_def)
    next
      case (Some mp)
      with call Inr p m None have r: "r = Inr (subSys \<in> SubSystemsDynamic)" "h' = h1"
        "c' = c(subSys \<mapsto> mp(tgt \<mapsto> cur))"
        by (simp_all add: h_Config_SetKVS_def chk_def)
      from Some have sm: "store_of h c subSys = Some (tgts (store_of h c) subSys)"
        by (simp add: store_of_def tgts_def)
      have "store_of h' c' = (store_of h c)(subSys \<mapsto> (tgts (store_of h c) subSys)(tgt \<mapsto> elems h1 cur))"
        unfolding r using Some st by (rule store_of_update)
      with r Inr p None e fr nx sm show ?thesis
        by (simp add: Config_SetKVS_def chk_def zget_registry_of assign_def)
    qed
  qed
qed

subsection \<open>SetKVS: failure leaves the store as it was\<close>

lemma SetKVS_error_lists:
  assumes "fst (Config_SetKVS KvFields SanitizeValue HelpSubSysMap c s defaultKVS) = Inl err"
  shows "snd (Config_SetKVS KvFields SanitizeValue HelpSubSysMap c s defaultKVS) = c"
  using assms
  by (auto simp: Config_SetKVS_def Let_def split: sum.splits prod.splits option.splits)

lemma h_SetKVS_error_store:
  assumes "h_Config_SetKVS KvFields SanitizeValue HelpSubSysMap grow h c s d = (Inl err, h', c')"
  shows "c' = c"
  using assms
  by (auto simp: h_Config_SetKVS_def Let_def split: sum.splits prod.splits option.splits)

text \<open>
  C2. If \<open>SetKVS\<close> returns an error (or panics), the store holds the same slices as
  before, no backing array that existed before the call has been written, and so every
  entry of the store and of the registry has the elements it had: the clone and its
  appends are the only arrays written. On the lists, \<open>SetKVS\<close> of the list model returns
  the same error and the same store.
\<close>

theorem SetKVS_error_unchanged:
  assumes c: "store_ok h c" and d: "registry_ok h d"
    and call: "h_Config_SetKVS KvFields SanitizeValue HelpSubSysMap grow h c s d = (Inl err, h', c')"
  shows "c' = c \<and>
         (\<forall>a < nxt h. arrays h' a = arrays h a) \<and>
         store_of h' c' = store_of h c \<and>
         registry_of h' d = registry_of h d \<and>
         Config_SetKVS KvFields SanitizeValue HelpSubSysMap (store_of h c) s (registry_of h d)
           = (Inl err, store_of h c)"
proof -
  have same: "c' = c"
    using call by (rule h_SetKVS_error_store)
  from h_SetKVS_refines [OF c d call] have
    pure: "Config_SetKVS KvFields SanitizeValue HelpSubSysMap (store_of h c) s (registry_of h d)
           = (Inl err, store_of h' c')"
    and fr: "\<forall>a < nxt h. arrays h' a = arrays h a"
    by simp_all
  have st: "store_of h' c = store_of h c"
    using c fr by (rule store_of_same)
  have rg: "registry_of h' d = registry_of h d"
    using d fr by (rule registry_of_same)
  from same pure fr st rg show ?thesis by simp
qed

lemmas heap_eval =
  h_Config_SetKVS_def h_SetKVS_merge_def h_Clone_def h_Set_def h_append_def h_backfill_def
  alloc_def store_def elems_def hzget_def nil_slice_def registry_of_def store_of_def

theorem SetKVS_error_unchanged_witness:
  "store_ok \<lparr>arrays = (\<lambda>a. [])(0 := [\<lparr>Key = ''name'', Value = ''a''\<rparr>]), nxt = 1\<rparr>
       [SiteSubSys \<mapsto> [Default \<mapsto> \<lparr>arr = 0, off = 0, len = 1, cap = 1\<rparr>]] \<and>
   registry_ok \<lparr>arrays = (\<lambda>a. [])(0 := [\<lparr>Key = ''name'', Value = ''a''\<rparr>]), nxt = 1\<rparr> Map.empty \<and>
   h_Config_SetKVS (\<lambda>input keys. [input]) (\<lambda>v. v) Map.empty (\<lambda>n. n)
       \<lparr>arrays = (\<lambda>a. [])(0 := [\<lparr>Key = ''name'', Value = ''a''\<rparr>]), nxt = 1\<rparr>
       [SiteSubSys \<mapsto> [Default \<mapsto> \<lparr>arr = 0, off = 0, len = 1, cap = 1\<rparr>]]
       ''site name'' Map.empty
     = (Inl (Error (''key '' @ apos @ ''name'' @ apos @ '', cannot have empty value'')),
        \<lparr>arrays = (\<lambda>a. [])(0 := [\<lparr>Key = ''name'', Value = ''a''\<rparr>]), nxt = 1\<rparr>,
        [SiteSubSys \<mapsto> [Default \<mapsto> \<lparr>arr = 0, off = 0, len = 1, cap = 1\<rparr>]]) \<and>
   Config_SetKVS (\<lambda>input keys. [input]) (\<lambda>v. v) Map.empty
       (store_of \<lparr>arrays = (\<lambda>a. [])(0 := [\<lparr>Key = ''name'', Value = ''a''\<rparr>]), nxt = 1\<rparr>
          [SiteSubSys \<mapsto> [Default \<mapsto> \<lparr>arr = 0, off = 0, len = 1, cap = 1\<rparr>]])
       ''site name''
       (registry_of \<lparr>arrays = (\<lambda>a. [])(0 := [\<lparr>Key = ''name'', Value = ''a''\<rparr>]), nxt = 1\<rparr> Map.empty)
     = (Inl (Error (''key '' @ apos @ ''name'' @ apos @ '', cannot have empty value'')),
        store_of \<lparr>arrays = (\<lambda>a. [])(0 := [\<lparr>Key = ''name'', Value = ''a''\<rparr>]), nxt = 1\<rparr>
          [SiteSubSys \<mapsto> [Default \<mapsto> \<lparr>arr = 0, off = 0, len = 1, cap = 1\<rparr>]])"
proof -
  let ?h = "\<lparr>arrays = (\<lambda>a. [])(0 := [\<lparr>Key = ''name'', Value = ''a''\<rparr>]), nxt = 1\<rparr>"
  let ?c = "[SiteSubSys \<mapsto> [Default \<mapsto> \<lparr>arr = 0, off = 0, len = 1, cap = 1\<rparr>]]"
  have c: "store_ok ?h ?c"
    by (auto simp: store_ok_def slice_ok_def tgts_def split: if_splits)
  have d: "registry_ok ?h Map.empty"
    by (simp add: registry_ok_def)
  have call: "h_Config_SetKVS (\<lambda>input keys. [input]) (\<lambda>v. v) Map.empty (\<lambda>n. n) ?h ?c
       ''site name'' Map.empty
     = (Inl (Error (''key '' @ apos @ ''name'' @ apos @ '', cannot have empty value'')), ?h, ?c)"
    by (simp add: heap_eval setkvs_eval eval_defs)
  from SetKVS_error_unchanged [OF c d call] c d call show ?thesis
    by simp
qed

subsection \<open>SetKVS: what a successful call leaves untouched\<close>

lemma h_SetKVS_success_store:
  assumes "h_Config_SetKVS KvFields SanitizeValue HelpSubSysMap grow h c s d = (Inr dynamic, h', c')"
  shows "\<exists>subSys tgt kvs cur m.
           SetKVS_parse KvFields SanitizeValue s (registry_of h d) = Inr (subSys, tgt, kvs) \<and>
           h_SetKVS_merge grow h c subSys tgt d kvs = (h', cur) \<and>
           c subSys = Some m \<and> c' = c(subSys \<mapsto> m(tgt \<mapsto> cur))"
  using assms
  by (auto simp: h_Config_SetKVS_def Let_def split: sum.splits prod.splits option.splits)

text \<open>
  C10. After a successful \<open>SetKVS\<close> addressing the sub-system \<open>subSys\<close> and the target
  \<open>tgt\<close> (the ones the directive parses to), the entry \<open>(subSys, tgt)\<close> holds the merged KVS
  in a backing array allocated during the call; every other entry of the store holds the
  slice it held, and the store has the same sub-systems. No backing array that existed
  before the call has been written, so every slice the store held before (the replaced
  one among them) and every slice of the default registry has the elements it had.
\<close>

theorem SetKVS_frame:
  assumes c: "store_ok h c" and d: "registry_ok h d"
    and call: "h_Config_SetKVS KvFields SanitizeValue HelpSubSysMap grow h c s d = (Inr dynamic, h', c')"
  shows "\<exists>subSys tgt kvs cur.
           SetKVS_parse KvFields SanitizeValue s (registry_of h d) = Inr (subSys, tgt, kvs) \<and>
           tgts c' subSys tgt = Some cur \<and>
           nxt h \<le> arr cur \<and>
           elems h' cur = SetKVS_merge (store_of h c) subSys tgt (registry_of h d) kvs \<and>
           dom c' = dom c \<and>
           (\<forall>s' t'. (s', t') \<noteq> (subSys, tgt) \<longrightarrow> tgts c' s' t' = tgts c s' t') \<and>
           (\<forall>a < nxt h. arrays h' a = arrays h a) \<and>
           (\<forall>s' t' sl. tgts c s' t' = Some sl \<longrightarrow> elems h' sl = elems h sl) \<and>
           (\<forall>k sl. d k = Some sl \<longrightarrow> elems h' sl = elems h sl)"
proof -
  from h_SetKVS_success_store [OF call] obtain subSys tgt kvs cur m where
    parse: "SetKVS_parse KvFields SanitizeValue s (registry_of h d) = Inr (subSys, tgt, kvs)"
    and merge: "h_SetKVS_merge grow h c subSys tgt d kvs = (h', cur)"
    and m: "c subSys = Some m" and c': "c' = c(subSys \<mapsto> m(tgt \<mapsto> cur))"
    by blast
  from h_SetKVS_merge_owns [OF c d merge] have own: "owns (nxt h) h h' cur"
    and e: "elems h' cur = SetKVS_merge (store_of h c) subSys tgt (registry_of h d) kvs"
    by simp_all
  from own have fresh: "nxt h \<le> arr cur" and fr: "\<forall>a < nxt h. arrays h' a = arrays h a"
    by (simp_all add: owns_def)
  have stored: "tgts c' subSys tgt = Some cur"
    by (simp add: c' tgts_def)
  have dm: "dom c' = dom c"
    using m by (auto simp: c')
  have others: "\<forall>s' t'. (s', t') \<noteq> (subSys, tgt) \<longrightarrow> tgts c' s' t' = tgts c s' t'"
    using m by (auto simp: c' tgts_def)
  have entries: "\<forall>s' t' sl. tgts c s' t' = Some sl \<longrightarrow> elems h' sl = elems h sl"
  proof (intro allI impI)
    fix s' t' sl
    assume "tgts c s' t' = Some sl"
    with c have "slice_ok h sl"
      unfolding store_ok_def by blast
    then show "elems h' sl = elems h sl"
      using fr by (rule elems_same)
  qed
  have defaults: "\<forall>k sl. d k = Some sl \<longrightarrow> elems h' sl = elems h sl"
  proof (intro allI impI)
    fix k sl
    assume "d k = Some sl"
    with d have "slice_ok h sl"
      unfolding registry_ok_def by blast
    then show "elems h' sl = elems h sl"
      using fr by (rule elems_same)
  qed
  from parse stored fresh e dm others fr entries defaults show ?thesis
    by blast
qed

theorem SetKVS_frame_witness:
  "store_ok
     \<lparr>arrays = (\<lambda>a. [])(0 := [\<lparr>Key = ''name'', Value = ''a''\<rparr>, \<lparr>Key = ''region'', Value = ''b''\<rparr>],
                          1 := [\<lparr>Key = ''name'', Value = ''''\<rparr>, \<lparr>Key = ''region'', Value = ''''\<rparr>]),
      nxt = 2\<rparr>
     [SiteSubSys \<mapsto> [Default \<mapsto> \<lparr>arr = 0, off = 0, len = 2, cap = 2\<rparr>]] \<and>
   registry_ok
     \<lparr>arrays = (\<lambda>a. [])(0 := [\<lparr>Key = ''name'', Value = ''a''\<rparr>, \<lparr>Key = ''region'', Value = ''b''\<rparr>],
                          1 := [\<lparr>Key = ''name'', Value = ''''\<rparr>, \<lparr>Key = ''region'', Value = ''''\<rparr>]),
      nxt = 2\<rparr>
     [SiteSubSys \<mapsto> \<lparr>arr = 1, off = 0, len = 2, cap = 2\<rparr>] \<and>
   h_Config_SetKVS (\<lambda>input keys. [input]) (\<lambda>v. v) Map.empty (\<lambda>n. n)
     \<lparr>arrays = (\<lambda>a. [])(0 := [\<lparr>Key = ''name'', Value = ''a''\<rparr>, \<lparr>Key = ''region'', Value = ''b''\<rparr>],
                          1 := [\<lparr>Key = ''name'', Value = ''''\<rparr>, \<lparr>Key = ''region'', Value = ''''\<rparr>]),
      nxt = 2\<rparr>
     [SiteSubSys \<mapsto> [Default \<mapsto> \<lparr>arr = 0, off = 0, len = 2, cap = 2\<rparr>]]
     ''site name=rack0''
     [SiteSubSys \<mapsto> \<lparr>arr = 1, off = 0, len = 2, cap = 2\<rparr>]
   = (Inr False,
      \<lparr>arrays = (\<lambda>a. [])(0 := [\<lparr>Key = ''name'', Value = ''a''\<rparr>, \<lparr>Key = ''region'', Value = ''b''\<rparr>],
                          1 := [\<lparr>Key = ''name'', Value = ''''\<rparr>, \<lparr>Key = ''region'', Value = ''''\<rparr>],
                          2 := [\<lparr>Key = ''name'', Value = ''rack0''\<rparr>, \<lparr>Key = ''region'', Value = ''b''\<rparr>]),
       nxt = 3\<rparr>,
      [SiteSubSys \<mapsto> [Default \<mapsto> \<lparr>arr = 2, off = 0, len = 2, cap = 2\<rparr>]]) \<and>
   (\<exists>cur. tgts [SiteSubSys \<mapsto> [Default \<mapsto> \<lparr>arr = 2, off = 0, len = 2, cap = 2\<rparr>]]
             SiteSubSys Default = Some cur \<and> 2 \<le> arr cur)"
proof -
  let ?h = "\<lparr>arrays = (\<lambda>a. [])(0 := [\<lparr>Key = ''name'', Value = ''a''\<rparr>, \<lparr>Key = ''region'', Value = ''b''\<rparr>],
                          1 := [\<lparr>Key = ''name'', Value = ''''\<rparr>, \<lparr>Key = ''region'', Value = ''''\<rparr>]),
      nxt = 2\<rparr>"
  let ?c = "[SiteSubSys \<mapsto> [Default \<mapsto> \<lparr>arr = 0, off = 0, len = 2, cap = 2\<rparr>]]"
  let ?d = "[SiteSubSys \<mapsto> \<lparr>arr = 1, off = 0, len = 2, cap = 2\<rparr>]"
  let ?h' = "\<lparr>arrays = (\<lambda>a. [])(0 := [\<lparr>Key = ''name'', Value = ''a''\<rparr>, \<lparr>Key = ''region'', Value = ''b''\<rparr>],
                          1 := [\<lparr>Key = ''name'', Value = ''''\<rparr>, \<lparr>Key = ''region'', Value = ''''\<rparr>],
                          2 := [\<lparr>Key = ''name'', Value = ''rack0''\<rparr>, \<lparr>Key = ''region'', Value = ''b''\<rparr>]),
       nxt = 3\<rparr>"
  let ?c' = "[SiteSubSys \<mapsto> [Default \<mapsto> \<lparr>arr = 2, off = 0, len = 2, cap = 2\<rparr>]]"
  have c: "store_ok ?h ?c"
    by (auto simp: store_ok_def slice_ok_def tgts_def split: if_splits)
  have d: "registry_ok ?h ?d"
    by (auto simp: registry_ok_def slice_ok_def split: if_splits)
  have u: "[0..<2] = [0, Suc 0]"
    by (simp add: numeral_2_eq_2)
  have call: "h_Config_SetKVS (\<lambda>input keys. [input]) (\<lambda>v. v) Map.empty (\<lambda>n. n) ?h ?c
       ''site name=rack0'' ?d = (Inr False, ?h', ?c')"
    by (simp add: heap_eval setkvs_eval eval_defs u Let_def)
  from SetKVS_frame [OF c d call] have
    "\<exists>cur. tgts ?c' SiteSubSys Default = Some cur \<and> 2 \<le> arr cur"
    by (auto simp: setkvs_eval eval_defs registry_of_def elems_def)
  with c d call show ?thesis
    by simp
qed

subsection \<open>SetKVS: the merged KVS and the required keys\<close>

lemma KVS_Lookup_missing: "\<not> snd (KVS_Lookup k key) \<Longrightarrow> fst (KVS_Lookup k key) = []"
  by (induction k) auto

lemma KVS_Lookup_absent: "\<not> snd (KVS_Lookup k key) \<Longrightarrow> KVS_Lookup k key = ([], False)"
  by (induction k) auto

lemma KVS_Get_fst: "KVS_Get k key = fst (KVS_Lookup k key)"
proof (cases "KVS_Lookup k key")
  case (Pair v ok)
  with KVS_Lookup_missing [of k key] show ?thesis
    by (cases ok) (simp_all add: KVS_Get_def)
qed

lemma KVS_Set_distinct:
  assumes "distinct (map KV.Key k)"
  shows "distinct (map KV.Key (KVS_Set k key v))"
proof (cases "key \<in> KV.Key ` set k")
  case True
  with assms show ?thesis by (simp add: KVS_Set_keys_mem)
next
  case False
  with assms show ?thesis by (simp add: KVS_Set_keys_new)
qed

text \<open>The parsed KVS is built with \<open>Set\<close>: no key occurs twice in it.\<close>

lemma parseFields_distinct:
  assumes "parseFields SanitizeValue flds kvs prevK = Inr r" and "distinct (map KV.Key kvs)"
  shows "distinct (map KV.Key r)"
  using assms
proof (induction flds arbitrary: kvs prevK)
  case Nil
  then show ?case by simp
next
  case (Cons v flds)
  show ?case
  proof (cases "SplitN2 v KvSeparator")
    case Nil
    with Cons.prems Cons.IH show ?thesis by simp
  next
    case (Cons kv0 rest)
    note sp = this
    show ?thesis
    proof (cases rest)
      case Nil
      with sp Cons.prems have pk: "prevK \<noteq> []"
        and rec: "parseFields SanitizeValue flds
                 (KVS_Set kvs prevK (KVS_Get kvs prevK @ KvSpaceSeparator # SanitizeValue kv0))
                 prevK = Inr r"
        by (auto split: if_splits)
      from rec KVS_Set_distinct [OF Cons.prems(2)] show ?thesis
        by (rule Cons.IH)
    next
      case (Cons kv1 rest')
      note r1 = this
      show ?thesis
      proof (cases rest')
        case Nil
        with sp r1 Cons.prems
        have rec: "parseFields SanitizeValue flds (KVS_Set kvs kv0 (SanitizeValue kv1)) kv0 = Inr r"
          by simp
        from rec KVS_Set_distinct [OF Cons.prems(2)] show ?thesis
          by (rule Cons.IH)
      next
        case (Cons a b)
        with sp r1 Cons.prems show ?thesis by simp
      qed
    qed
  qed
qed

lemma SetKVS_parse_distinct:
  assumes "SetKVS_parse KvFields SanitizeValue s defaultKVS = Inr (subSys, tgt, kvs)"
  shows "distinct (map KV.Key kvs)"
proof -
  from assms obtain flds k0 where p: "parseFields SanitizeValue flds [] [] = Inr k0"
    and k: "kvs = k0 \<or> kvs = KVS_Set k0 Enable EnableOn"
    by (auto simp: SetKVS_parse_def Let_def split: prod.splits option.splits list.splits
          if_splits sum.splits)
  from p have "distinct (map KV.Key k0)"
    by (rule parseFields_distinct) simp
  with k KVS_Set_distinct show ?thesis
    by auto
qed

text \<open>Lines 906-918: the requested pairs replace what the slice holds, key by key.\<close>

lemma merge_fold_Lookup:
  assumes "distinct (map KV.Key kvs)"
  shows "KVS_Lookup (foldl (\<lambda>cur kv. if KV.Key kv = Comment then cur
                                     else KVS_Set cur (KV.Key kv) (Value kv)) cur kvs) key =
           (if key \<noteq> Comment \<and> snd (KVS_Lookup kvs key) then KVS_Lookup kvs key
            else KVS_Lookup cur key)"
  using assms
proof (induction kvs arbitrary: cur)
  case Nil
  show ?case by simp
next
  case (Cons kv rest)
  let ?f = "\<lambda>cur kv. if KV.Key kv = Comment then cur else KVS_Set cur (KV.Key kv) (Value kv)"
  define cur' where "cur' = ?f cur kv"
  from Cons.prems have d: "distinct (map KV.Key rest)" and nk: "KV.Key kv \<notin> KV.Key ` set rest"
    by simp_all
  have st: "foldl ?f cur (kv # rest) = foldl ?f cur' rest"
    by (simp add: cur'_def)
  have IH: "KVS_Lookup (foldl ?f cur' rest) key =
           (if key \<noteq> Comment \<and> snd (KVS_Lookup rest key) then KVS_Lookup rest key
            else KVS_Lookup cur' key)"
    using d by (rule Cons.IH)
  show ?case
  proof (cases "KV.Key kv = key")
    case True
    with nk have nr: "\<not> snd (KVS_Lookup rest key)"
      by (simp add: KVS_Lookup_found)
    have lk: "KVS_Lookup (kv # rest) key = (Value kv, True)"
      using True by simp
    have c': "KVS_Lookup cur' key = (if key \<noteq> Comment then (Value kv, True) else KVS_Lookup cur key)"
      using True by (auto simp: cur'_def KVS_Lookup_Set_same)
    show ?thesis
      unfolding st IH lk c' using nr by simp
  next
    case False
    then have ne: "key \<noteq> KV.Key kv"
      by (rule not_sym)
    have fk: "KVS_Lookup cur' key = KVS_Lookup cur key"
      unfolding cur'_def
      by (cases "KV.Key kv = Comment") (simp_all add: KVS_Lookup_Set_other [OF ne])
    have lk: "KVS_Lookup (kv # rest) key = KVS_Lookup rest key"
      using False by simp
    show ?thesis
      unfolding st IH lk fk by (rule refl)
  qed
qed

lemma SetKVS_merge_Lookup:
  assumes "distinct (map KV.Key kvs)"
  shows "KVS_Lookup (SetKVS_merge c subSys tgt defaultKVS kvs) key =
     (if snd (KVS_Lookup kvs key) then KVS_Lookup kvs key
      else if snd (KVS_Lookup (zget (tgts c subSys) tgt) key)
           then KVS_Lookup (zget (tgts c subSys) tgt) key
      else KVS_Lookup (zget defaultKVS subSys) key)"
proof -
  define cur0 where "cur0 = (case tgts c subSys tgt of
                       None \<Rightarrow> KVS_Clone (zget defaultKVS subSys)
                     | Some ck \<Rightarrow> backfill (KVS_Clone ck) (zget defaultKVS subSys))"
  define cur1 where "cur1 = foldl (\<lambda>cur kv. if KV.Key kv = Comment then cur
                                     else KVS_Set cur (KV.Key kv) (Value kv)) cur0 kvs"
  have m: "SetKVS_merge c subSys tgt defaultKVS kvs =
      (if snd (KVS_Lookup kvs Comment) then KVS_Set cur1 Comment (fst (KVS_Lookup kvs Comment))
       else cur1)"
    by (simp add: SetKVS_merge_def Let_def cur0_def cur1_def split: prod.splits)
  have l0: "KVS_Lookup cur0 key =
     (if snd (KVS_Lookup (zget (tgts c subSys) tgt) key)
      then KVS_Lookup (zget (tgts c subSys) tgt) key
      else KVS_Lookup (zget defaultKVS subSys) key)"
    by (cases "tgts c subSys tgt")
       (simp_all add: cur0_def zget_def KVS_Clone_def backfill_Lookup)
  have l1: "KVS_Lookup cur1 key =
           (if key \<noteq> Comment \<and> snd (KVS_Lookup kvs key) then KVS_Lookup kvs key
            else KVS_Lookup cur0 key)"
    unfolding cur1_def using assms by (rule merge_fold_Lookup)
  show ?thesis
  proof (cases "key = Comment")
    case True
    show ?thesis
    proof (cases "snd (KVS_Lookup kvs Comment)")
      case t: True
      then have "KVS_Lookup kvs Comment = (fst (KVS_Lookup kvs Comment), True)"
        by (cases "KVS_Lookup kvs Comment") simp
      with True t show ?thesis
        by (simp add: m KVS_Lookup_Set_same)
    next
      case False
      with True l1 l0 show ?thesis
        by (simp add: m)
    qed
  next
    case False
    then have "KVS_Lookup (SetKVS_merge c subSys tgt defaultKVS kvs) key = KVS_Lookup cur1 key"
      by (simp add: m KVS_Lookup_Set_other)
    with False l1 l0 show ?thesis
      by simp
  qed
qed

lemma SetKVS_check_find:
  "SetKVS_check hkvs enableRequired currKVS subSys =
     (if KVS_Get currKVS Enable = EnableOn \<or> \<not> enableRequired
      then case find (\<lambda>x. \<not> Optional x \<and> KVS_Get currKVS (HelpKV.Key x) = []) hkvs of
             None \<Rightarrow> None
           | Some hkv \<Rightarrow> Some (Error (apos @ HelpKV.Key hkv @ apos @ '' is not optional for '' @ apos
                            @ subSys @ apos @ '' sub-system, please check '' @ apos @ subSys
                            @ apos @ '' documentation''))
      else None)"
  by (induction hkvs) (auto simp: KVS_Get_fst)

lemma find_filter: "find P xs = (case filter P xs of [] \<Rightarrow> None | x # _ \<Rightarrow> Some x)"
  by (induction xs) simp_all

text \<open>
  C3, amended. For a directive that parses to \<open>(subSys, tgt, kvs)\<close>, \<open>SetKVS\<close> works on
  a merged KVS \<open>currKVS\<close> in which every key has the value \<open>kvs\<close> gives it, else the value
  the stored entry \<open>(subSys, tgt)\<close> gives it, else the value the registered default gives
  it, and is absent when all three lack it. The target is enabled when the state key of
  \<open>currKVS\<close> is on or the default KVS of the sub-system has no state key. If the target is
  enabled and some help key that is not optional is empty in \<open>currKVS\<close>, \<open>SetKVS\<close> returns
  the error that names the first such key of the help order, and the store is unchanged.
  If the target is disabled, or no such key is empty, then on a store that has the
  sub-system \<open>currKVS\<close> is stored under \<open>(subSys, tgt)\<close>, and on a store that lacks the
  sub-system the assignment of line 940 writes to a nil map: \<open>SetKVS\<close> panics and the
  store is unchanged.
\<close>

theorem SetKVS_required_keys:
  assumes parse: "SetKVS_parse KvFields SanitizeValue s defaultKVS = Inr (subSys, tgt, kvs)"
    and d: "defs = zget defaultKVS subSys"
    and e: "entry = zget (tgts c subSys) tgt"
    and hk: "hkvs = zget HelpSubSysMap subSys"
    and R: "R = Config_SetKVS KvFields SanitizeValue HelpSubSysMap c s defaultKVS"
  shows
    "\<exists>currKVS.
       (\<forall>key. KVS_Lookup currKVS key =
          (if snd (KVS_Lookup kvs key) then KVS_Lookup kvs key
           else if snd (KVS_Lookup entry key) then KVS_Lookup entry key
           else KVS_Lookup defs key)) \<and>
       (let enabled = (KVS_Get currKVS Enable = EnableOn \<or> \<not> snd (KVS_Lookup defs Enable));
            missing = filter (\<lambda>hkv. \<not> Optional hkv \<and> KVS_Get currKVS (HelpKV.Key hkv) = []) hkvs
        in (enabled \<and> missing \<noteq> [] \<longrightarrow>
              R = (Inl (Error (apos @ HelpKV.Key (hd missing) @ apos @ '' is not optional for '' @ apos
                            @ subSys @ apos @ '' sub-system, please check '' @ apos @ subSys
                            @ apos @ '' documentation'')), c)) \<and>
           ((\<not> enabled \<or> missing = []) \<and> c subSys \<noteq> None \<longrightarrow>
              R = (Inr (subSys \<in> SubSystemsDynamic),
                   c(subSys \<mapsto> (tgts c subSys)(tgt \<mapsto> currKVS)))) \<and>
           ((\<not> enabled \<or> missing = []) \<and> c subSys = None \<longrightarrow>
              R = (Inl (Panic ''assignment to entry in nil map''), c)))"
proof -
  define currKVS where "currKVS = SetKVS_merge c subSys tgt defaultKVS kvs"
  define enabled where "enabled \<longleftrightarrow> KVS_Get currKVS Enable = EnableOn \<or> \<not> snd (KVS_Lookup defs Enable)"
  define missing where
    "missing = filter (\<lambda>hkv. \<not> Optional hkv \<and> KVS_Get currKVS (HelpKV.Key hkv) = []) hkvs"
  have lk: "\<forall>key. KVS_Lookup currKVS key =
          (if snd (KVS_Lookup kvs key) then KVS_Lookup kvs key
           else if snd (KVS_Lookup entry key) then KVS_Lookup entry key
           else KVS_Lookup defs key)"
    unfolding currKVS_def d e
    using SetKVS_merge_Lookup [OF SetKVS_parse_distinct [OF parse]] by blast
  have chk: "SetKVS_check hkvs (snd (KVS_Lookup defs Enable)) currKVS subSys =
     (if enabled
      then case missing of
             [] \<Rightarrow> None
           | hkv # _ \<Rightarrow> Some (Error (apos @ HelpKV.Key hkv @ apos @ '' is not optional for '' @ apos
                            @ subSys @ apos @ '' sub-system, please check '' @ apos @ subSys
                            @ apos @ '' documentation''))
      else None)"
    by (simp add: SetKVS_check_find enabled_def missing_def find_filter split: list.splits)
  have R': "R = (case SetKVS_check hkvs (snd (KVS_Lookup defs Enable)) currKVS subSys of
                   Some err \<Rightarrow> (Inl err, c)
                 | None \<Rightarrow>
                     (case assign c subSys tgt currKVS of
                        Inl err \<Rightarrow> (Inl err, c)
                      | Inr c' \<Rightarrow> (Inr (subSys \<in> SubSystemsDynamic), c')))"
    unfolding R currKVS_def hk d Config_SetKVS_def parse by (simp add: Let_def)
  have stored: "c subSys \<noteq> None \<Longrightarrow>
      assign c subSys tgt currKVS = Inr (c(subSys \<mapsto> (tgts c subSys)(tgt \<mapsto> currKVS)))"
    by (auto simp: assign_def tgts_def)
  have nil: "c subSys = None \<Longrightarrow>
      assign c subSys tgt currKVS = Inl (Panic ''assignment to entry in nil map'')"
    by (simp add: assign_def)
  have first: "enabled \<and> missing \<noteq> [] \<longrightarrow>
      R = (Inl (Error (apos @ HelpKV.Key (hd missing) @ apos @ '' is not optional for '' @ apos
                            @ subSys @ apos @ '' sub-system, please check '' @ apos @ subSys
                            @ apos @ '' documentation'')), c)"
    by (cases missing) (simp_all add: R' chk)
  have second: "(\<not> enabled \<or> missing = []) \<and> c subSys \<noteq> None \<longrightarrow>
      R = (Inr (subSys \<in> SubSystemsDynamic), c(subSys \<mapsto> (tgts c subSys)(tgt \<mapsto> currKVS)))"
    by (auto simp: R' chk stored)
  have third: "(\<not> enabled \<or> missing = []) \<and> c subSys = None \<longrightarrow>
      R = (Inl (Panic ''assignment to entry in nil map''), c)"
    by (auto simp: R' chk nil)
  from first second third
  have cases: "let enabled = (KVS_Get currKVS Enable = EnableOn \<or> \<not> snd (KVS_Lookup defs Enable));
            missing = filter (\<lambda>hkv. \<not> Optional hkv \<and> KVS_Get currKVS (HelpKV.Key hkv) = []) hkvs
        in (enabled \<and> missing \<noteq> [] \<longrightarrow>
              R = (Inl (Error (apos @ HelpKV.Key (hd missing) @ apos @ '' is not optional for '' @ apos
                            @ subSys @ apos @ '' sub-system, please check '' @ apos @ subSys
                            @ apos @ '' documentation'')), c)) \<and>
           ((\<not> enabled \<or> missing = []) \<and> c subSys \<noteq> None \<longrightarrow>
              R = (Inr (subSys \<in> SubSystemsDynamic),
                   c(subSys \<mapsto> (tgts c subSys)(tgt \<mapsto> currKVS)))) \<and>
           ((\<not> enabled \<or> missing = []) \<and> c subSys = None \<longrightarrow>
              R = (Inl (Panic ''assignment to entry in nil map''), c))"
    unfolding Let_def enabled_def [symmetric] missing_def [symmetric] by (intro conjI)
  from lk cases show ?thesis
    by blast
qed


theorem SetKVS_required_keys_witness:
  "fst (Config_SetKVS (\<lambda>input keys. [input]) (\<lambda>v. v)
          [NotifyWebhookSubSys \<mapsto> [\<lparr>HelpKV.Key = ''endpoint'', Optional = False, Sensitive = False\<rparr>,
                                \<lparr>HelpKV.Key = ''auth_token'', Optional = True, Sensitive = True\<rparr>]]
          [NotifyWebhookSubSys \<mapsto>
          [''primary'' \<mapsto> [\<lparr>Key = ''endpoint'', Value = ''http://h''\<rparr>, \<lparr>Key = Comment, Value = ''old''\<rparr>],
           ''second'' \<mapsto> [\<lparr>Key = ''queue_dir'', Value = ''/q''\<rparr>]]]
          ''notify_webhook:primary queue_dir=/d''
          [NotifyWebhookSubSys \<mapsto> [\<lparr>Key = Enable, Value = EnableOff\<rparr>, \<lparr>Key = ''endpoint'', Value = []\<rparr>,
                                \<lparr>Key = ''queue_dir'', Value = []\<rparr>]]) = Inr False \<and>
   tgts (snd (Config_SetKVS (\<lambda>input keys. [input]) (\<lambda>v. v)
          [NotifyWebhookSubSys \<mapsto> [\<lparr>HelpKV.Key = ''endpoint'', Optional = False, Sensitive = False\<rparr>,
                                \<lparr>HelpKV.Key = ''auth_token'', Optional = True, Sensitive = True\<rparr>]]
          [NotifyWebhookSubSys \<mapsto>
          [''primary'' \<mapsto> [\<lparr>Key = ''endpoint'', Value = ''http://h''\<rparr>, \<lparr>Key = Comment, Value = ''old''\<rparr>],
           ''second'' \<mapsto> [\<lparr>Key = ''queue_dir'', Value = ''/q''\<rparr>]]]
          ''notify_webhook:primary queue_dir=/d''
          [NotifyWebhookSubSys \<mapsto> [\<lparr>Key = Enable, Value = EnableOff\<rparr>, \<lparr>Key = ''endpoint'', Value = []\<rparr>,
                                \<lparr>Key = ''queue_dir'', Value = []\<rparr>]])) NotifyWebhookSubSys ''primary''
     = Some [\<lparr>Key = ''endpoint'', Value = ''http://h''\<rparr>, \<lparr>Key = Comment, Value = ''old''\<rparr>,
             \<lparr>Key = Enable, Value = EnableOn\<rparr>, \<lparr>Key = ''queue_dir'', Value = ''/d''\<rparr>] \<and>
   tgts (snd (Config_SetKVS (\<lambda>input keys. [input]) (\<lambda>v. v)
          [NotifyWebhookSubSys \<mapsto> [\<lparr>HelpKV.Key = ''endpoint'', Optional = False, Sensitive = False\<rparr>,
                                \<lparr>HelpKV.Key = ''auth_token'', Optional = True, Sensitive = True\<rparr>]]
          [NotifyWebhookSubSys \<mapsto>
          [''primary'' \<mapsto> [\<lparr>Key = ''endpoint'', Value = ''http://h''\<rparr>, \<lparr>Key = Comment, Value = ''old''\<rparr>],
           ''second'' \<mapsto> [\<lparr>Key = ''queue_dir'', Value = ''/q''\<rparr>]]]
          ''notify_webhook:primary queue_dir=/d''
          [NotifyWebhookSubSys \<mapsto> [\<lparr>Key = Enable, Value = EnableOff\<rparr>, \<lparr>Key = ''endpoint'', Value = []\<rparr>,
                                \<lparr>Key = ''queue_dir'', Value = []\<rparr>]])) NotifyWebhookSubSys ''second''
     = Some [\<lparr>Key = ''queue_dir'', Value = ''/q''\<rparr>] \<and>
   (\<exists>currKVS.
      KVS_Lookup currKVS ''endpoint'' = (''http://h'', True) \<and>
      KVS_Lookup currKVS Enable = (EnableOn, True) \<and>
      KVS_Lookup currKVS ''queue_dir'' = (''/d'', True) \<and>
      KVS_Lookup currKVS Comment = (''old'', True) \<and>
      snd (Config_SetKVS (\<lambda>input keys. [input]) (\<lambda>v. v)
          [NotifyWebhookSubSys \<mapsto> [\<lparr>HelpKV.Key = ''endpoint'', Optional = False, Sensitive = False\<rparr>,
                                \<lparr>HelpKV.Key = ''auth_token'', Optional = True, Sensitive = True\<rparr>]]
          [NotifyWebhookSubSys \<mapsto>
          [''primary'' \<mapsto> [\<lparr>Key = ''endpoint'', Value = ''http://h''\<rparr>, \<lparr>Key = Comment, Value = ''old''\<rparr>],
           ''second'' \<mapsto> [\<lparr>Key = ''queue_dir'', Value = ''/q''\<rparr>]]]
          ''notify_webhook:primary queue_dir=/d''
          [NotifyWebhookSubSys \<mapsto> [\<lparr>Key = Enable, Value = EnableOff\<rparr>, \<lparr>Key = ''endpoint'', Value = []\<rparr>,
                                \<lparr>Key = ''queue_dir'', Value = []\<rparr>]])
        = [NotifyWebhookSubSys \<mapsto>
          [''primary'' \<mapsto> [\<lparr>Key = ''endpoint'', Value = ''http://h''\<rparr>, \<lparr>Key = Comment, Value = ''old''\<rparr>],
           ''second'' \<mapsto> [\<lparr>Key = ''queue_dir'', Value = ''/q''\<rparr>]]](NotifyWebhookSubSys \<mapsto>
            (tgts [NotifyWebhookSubSys \<mapsto>
          [''primary'' \<mapsto> [\<lparr>Key = ''endpoint'', Value = ''http://h''\<rparr>, \<lparr>Key = Comment, Value = ''old''\<rparr>],
           ''second'' \<mapsto> [\<lparr>Key = ''queue_dir'', Value = ''/q''\<rparr>]]] NotifyWebhookSubSys)(''primary'' \<mapsto> currKVS))) \<and>
   fst (Config_SetKVS (\<lambda>input keys. [input]) (\<lambda>v. v)
          [NotifyWebhookSubSys \<mapsto> [\<lparr>HelpKV.Key = ''endpoint'', Optional = False, Sensitive = False\<rparr>,
                                \<lparr>HelpKV.Key = ''auth_token'', Optional = True, Sensitive = True\<rparr>]]
          [NotifyWebhookSubSys \<mapsto>
          [''primary'' \<mapsto> [\<lparr>Key = ''endpoint'', Value = ''http://h''\<rparr>, \<lparr>Key = Comment, Value = ''old''\<rparr>],
           ''second'' \<mapsto> [\<lparr>Key = ''queue_dir'', Value = ''/q''\<rparr>]]]
          ''notify_webhook:second comment=c''
          [NotifyWebhookSubSys \<mapsto> [\<lparr>Key = Enable, Value = EnableOff\<rparr>, \<lparr>Key = ''endpoint'', Value = []\<rparr>,
                                \<lparr>Key = ''queue_dir'', Value = []\<rparr>]])
     = Inl (Error (apos @ ''endpoint'' @ apos @ '' is not optional for '' @ apos
                  @ ''notify_webhook'' @ apos @ '' sub-system, please check '' @ apos
                  @ ''notify_webhook'' @ apos @ '' documentation'')) \<and>
   tgts (snd (Config_SetKVS (\<lambda>input keys. [input]) (\<lambda>v. v)
          [NotifyWebhookSubSys \<mapsto> [\<lparr>HelpKV.Key = ''endpoint'', Optional = False, Sensitive = False\<rparr>,
                                \<lparr>HelpKV.Key = ''auth_token'', Optional = True, Sensitive = True\<rparr>]]
          [NotifyWebhookSubSys \<mapsto>
          [''primary'' \<mapsto> [\<lparr>Key = ''endpoint'', Value = ''http://h''\<rparr>, \<lparr>Key = Comment, Value = ''old''\<rparr>],
           ''second'' \<mapsto> [\<lparr>Key = ''queue_dir'', Value = ''/q''\<rparr>]]]
          ''notify_webhook:second comment=c''
          [NotifyWebhookSubSys \<mapsto> [\<lparr>Key = Enable, Value = EnableOff\<rparr>, \<lparr>Key = ''endpoint'', Value = []\<rparr>,
                                \<lparr>Key = ''queue_dir'', Value = []\<rparr>]])) NotifyWebhookSubSys ''second''
     = Some [\<lparr>Key = ''queue_dir'', Value = ''/q''\<rparr>] \<and>
   fst (Config_SetKVS (\<lambda>input keys. [input]) (\<lambda>v. v)
          [NotifyWebhookSubSys \<mapsto> [\<lparr>HelpKV.Key = ''endpoint'', Optional = False, Sensitive = False\<rparr>,
                                \<lparr>HelpKV.Key = ''auth_token'', Optional = True, Sensitive = True\<rparr>]]
          [NotifyWebhookSubSys \<mapsto>
          [''primary'' \<mapsto> [\<lparr>Key = ''endpoint'', Value = ''http://h''\<rparr>, \<lparr>Key = Comment, Value = ''old''\<rparr>],
           ''second'' \<mapsto> [\<lparr>Key = ''queue_dir'', Value = ''/q''\<rparr>]]]
          ''notify_webhook:second state=off''
          [NotifyWebhookSubSys \<mapsto> [\<lparr>Key = Enable, Value = EnableOff\<rparr>, \<lparr>Key = ''endpoint'', Value = []\<rparr>,
                                \<lparr>Key = ''queue_dir'', Value = []\<rparr>]]) = Inr False \<and>
   tgts (snd (Config_SetKVS (\<lambda>input keys. [input]) (\<lambda>v. v)
          [NotifyWebhookSubSys \<mapsto> [\<lparr>HelpKV.Key = ''endpoint'', Optional = False, Sensitive = False\<rparr>,
                                \<lparr>HelpKV.Key = ''auth_token'', Optional = True, Sensitive = True\<rparr>]]
          [NotifyWebhookSubSys \<mapsto>
          [''primary'' \<mapsto> [\<lparr>Key = ''endpoint'', Value = ''http://h''\<rparr>, \<lparr>Key = Comment, Value = ''old''\<rparr>],
           ''second'' \<mapsto> [\<lparr>Key = ''queue_dir'', Value = ''/q''\<rparr>]]]
          ''notify_webhook:second state=off''
          [NotifyWebhookSubSys \<mapsto> [\<lparr>Key = Enable, Value = EnableOff\<rparr>, \<lparr>Key = ''endpoint'', Value = []\<rparr>,
                                \<lparr>Key = ''queue_dir'', Value = []\<rparr>]])) NotifyWebhookSubSys ''second''
     = Some [\<lparr>Key = ''queue_dir'', Value = ''/q''\<rparr>, \<lparr>Key = Enable, Value = EnableOff\<rparr>,
             \<lparr>Key = ''endpoint'', Value = []\<rparr>]"
proof -
  let ?K = "(\<lambda>input keys. [input]) :: string \<Rightarrow> string list \<Rightarrow> string list"
  let ?S = "(\<lambda>v. v) :: string \<Rightarrow> string"
  let ?H = "[NotifyWebhookSubSys \<mapsto> [\<lparr>HelpKV.Key = ''endpoint'', Optional = False, Sensitive = False\<rparr>,
                                \<lparr>HelpKV.Key = ''auth_token'', Optional = True, Sensitive = True\<rparr>]]"
  let ?D = "[NotifyWebhookSubSys \<mapsto> [\<lparr>Key = Enable, Value = EnableOff\<rparr>, \<lparr>Key = ''endpoint'', Value = []\<rparr>,
                                \<lparr>Key = ''queue_dir'', Value = []\<rparr>]]"
  let ?c = "[NotifyWebhookSubSys \<mapsto>
          [''primary'' \<mapsto> [\<lparr>Key = ''endpoint'', Value = ''http://h''\<rparr>, \<lparr>Key = Comment, Value = ''old''\<rparr>],
           ''second'' \<mapsto> [\<lparr>Key = ''queue_dir'', Value = ''/q''\<rparr>]]]"
  have p1: "SetKVS_parse ?K ?S ''notify_webhook:primary queue_dir=/d'' ?D
      = Inr (''notify_webhook'', ''primary'',
             [\<lparr>Key = ''queue_dir'', Value = ''/d''\<rparr>, \<lparr>Key = ''state'', Value = ''on''\<rparr>])"
    by (simp add: setkvs_eval eval_defs)
  have ev1: "fst (Config_SetKVS ?K ?S ?H ?c ''notify_webhook:primary queue_dir=/d'' ?D) = Inr False"
    "tgts (snd (Config_SetKVS ?K ?S ?H ?c ''notify_webhook:primary queue_dir=/d'' ?D)) NotifyWebhookSubSys ''primary''
     = Some [\<lparr>Key = ''endpoint'', Value = ''http://h''\<rparr>, \<lparr>Key = Comment, Value = ''old''\<rparr>,
             \<lparr>Key = Enable, Value = EnableOn\<rparr>, \<lparr>Key = ''queue_dir'', Value = ''/d''\<rparr>]"
    "tgts (snd (Config_SetKVS ?K ?S ?H ?c ''notify_webhook:primary queue_dir=/d'' ?D)) NotifyWebhookSubSys ''second''
     = Some [\<lparr>Key = ''queue_dir'', Value = ''/q''\<rparr>]"
    by (simp_all add: setkvs_eval eval_defs)
  have ev2: "fst (Config_SetKVS ?K ?S ?H ?c ''notify_webhook:second comment=c'' ?D)
     = Inl (Error (apos @ ''endpoint'' @ apos @ '' is not optional for '' @ apos
                  @ ''notify_webhook'' @ apos @ '' sub-system, please check '' @ apos
                  @ ''notify_webhook'' @ apos @ '' documentation''))"
    "tgts (snd (Config_SetKVS ?K ?S ?H ?c ''notify_webhook:second comment=c'' ?D)) NotifyWebhookSubSys ''second''
     = Some [\<lparr>Key = ''queue_dir'', Value = ''/q''\<rparr>]"
    by (simp_all add: setkvs_eval eval_defs)
  have ev3: "fst (Config_SetKVS ?K ?S ?H ?c ''notify_webhook:second state=off'' ?D) = Inr False"
    "tgts (snd (Config_SetKVS ?K ?S ?H ?c ''notify_webhook:second state=off'' ?D)) NotifyWebhookSubSys ''second''
     = Some [\<lparr>Key = ''queue_dir'', Value = ''/q''\<rparr>, \<lparr>Key = Enable, Value = EnableOff\<rparr>,
             \<lparr>Key = ''endpoint'', Value = []\<rparr>]"
    by (simp_all add: setkvs_eval eval_defs)
  from SetKVS_required_keys [OF p1 refl refl refl refl, where c = ?c and HelpSubSysMap = ?H]
  obtain currKVS where lk: "\<forall>key. KVS_Lookup currKVS key =
          (if snd (KVS_Lookup [\<lparr>Key = ''queue_dir'', Value = ''/d''\<rparr>, \<lparr>Key = ''state'', Value = ''on''\<rparr>] key)
           then KVS_Lookup [\<lparr>Key = ''queue_dir'', Value = ''/d''\<rparr>, \<lparr>Key = ''state'', Value = ''on''\<rparr>] key
           else if snd (KVS_Lookup (zget (tgts ?c ''notify_webhook'') ''primary'') key)
                then KVS_Lookup (zget (tgts ?c ''notify_webhook'') ''primary'') key
           else KVS_Lookup (zget ?D ''notify_webhook'') key)"
    and cs: "let enabled = (KVS_Get currKVS Enable = EnableOn \<or>
                            \<not> snd (KVS_Lookup (zget ?D ''notify_webhook'') Enable));
            missing = filter (\<lambda>hkv. \<not> Optional hkv \<and> KVS_Get currKVS (HelpKV.Key hkv) = [])
                        (zget ?H ''notify_webhook'')
        in (enabled \<and> missing \<noteq> [] \<longrightarrow>
              Config_SetKVS ?K ?S ?H ?c ''notify_webhook:primary queue_dir=/d'' ?D
                = (Inl (Error (apos @ HelpKV.Key (hd missing) @ apos @ '' is not optional for '' @ apos
                            @ ''notify_webhook'' @ apos @ '' sub-system, please check '' @ apos
                            @ ''notify_webhook'' @ apos @ '' documentation'')), ?c)) \<and>
           ((\<not> enabled \<or> missing = []) \<and> ?c ''notify_webhook'' \<noteq> None \<longrightarrow>
              Config_SetKVS ?K ?S ?H ?c ''notify_webhook:primary queue_dir=/d'' ?D
                = (Inr (''notify_webhook'' \<in> SubSystemsDynamic),
                   ?c(''notify_webhook'' \<mapsto> (tgts ?c ''notify_webhook'')(''primary'' \<mapsto> currKVS)))) \<and>
           ((\<not> enabled \<or> missing = []) \<and> ?c ''notify_webhook'' = None \<longrightarrow>
              Config_SetKVS ?K ?S ?H ?c ''notify_webhook:primary queue_dir=/d'' ?D
                = (Inl (Panic ''assignment to entry in nil map''), ?c))"
    by blast
  have l1: "KVS_Lookup currKVS ''endpoint'' = (''http://h'', True)"
    and l2: "KVS_Lookup currKVS Enable = (EnableOn, True)"
    and l3: "KVS_Lookup currKVS ''queue_dir'' = (''/d'', True)"
    and l4: "KVS_Lookup currKVS Comment = (''old'', True)"
    by (simp_all add: lk eval_defs)
  have g: "KVS_Get currKVS Enable = EnableOn" "KVS_Get currKVS ''endpoint'' = ''http://h''"
    by (simp_all add: KVS_Get_def l1 l2)
  from cs have st: "snd (Config_SetKVS ?K ?S ?H ?c ''notify_webhook:primary queue_dir=/d'' ?D)
      = ?c(NotifyWebhookSubSys \<mapsto> (tgts ?c NotifyWebhookSubSys)(''primary'' \<mapsto> currKVS))"
    by (simp add: Let_def g eval_defs)
  from l1 l2 l3 l4 st
  have ex: "\<exists>currKVS.
      KVS_Lookup currKVS ''endpoint'' = (''http://h'', True) \<and>
      KVS_Lookup currKVS Enable = (EnableOn, True) \<and>
      KVS_Lookup currKVS ''queue_dir'' = (''/d'', True) \<and>
      KVS_Lookup currKVS Comment = (''old'', True) \<and>
      snd (Config_SetKVS ?K ?S ?H ?c ''notify_webhook:primary queue_dir=/d'' ?D)
        = ?c(NotifyWebhookSubSys \<mapsto> (tgts ?c NotifyWebhookSubSys)(''primary'' \<mapsto> currKVS))"
    by blast
  from ev1 ex ev2 ev3 show ?thesis
    by (intro conjI)
qed

text \<open>
  C3 as stated fails on a store without the sub-system: the directive is valid, the
  target is disabled, and \<open>SetKVS\<close> panics at line 940 instead of storing the merged KVS.
\<close>

theorem SetKVS_nil_map_counterexample:
  "SetKVS_parse (\<lambda>input keys. [input]) (\<lambda>v. v) ''notify_webhook:second state=off''
       [NotifyWebhookSubSys \<mapsto> [\<lparr>Key = Enable, Value = EnableOff\<rparr>, \<lparr>Key = ''endpoint'', Value = []\<rparr>,
                                \<lparr>Key = ''queue_dir'', Value = []\<rparr>]]
     = Inr (''notify_webhook'', ''second'', [\<lparr>Key = ''state'', Value = ''off''\<rparr>]) \<and>
   KVS_Get (SetKVS_merge Map.empty ''notify_webhook'' ''second''
              [NotifyWebhookSubSys \<mapsto> [\<lparr>Key = Enable, Value = EnableOff\<rparr>, \<lparr>Key = ''endpoint'', Value = []\<rparr>,
                                \<lparr>Key = ''queue_dir'', Value = []\<rparr>]]
              [\<lparr>Key = ''state'', Value = ''off''\<rparr>]) Enable = EnableOff \<and>
   fst (Config_SetKVS (\<lambda>input keys. [input]) (\<lambda>v. v)
          [NotifyWebhookSubSys \<mapsto> [\<lparr>HelpKV.Key = ''endpoint'', Optional = False, Sensitive = False\<rparr>,
                                \<lparr>HelpKV.Key = ''auth_token'', Optional = True, Sensitive = True\<rparr>]]
          Map.empty
          ''notify_webhook:second state=off''
          [NotifyWebhookSubSys \<mapsto> [\<lparr>Key = Enable, Value = EnableOff\<rparr>, \<lparr>Key = ''endpoint'', Value = []\<rparr>,
                                \<lparr>Key = ''queue_dir'', Value = []\<rparr>]]) = Inl (Panic ''assignment to entry in nil map'') \<and>
   tgts (snd (Config_SetKVS (\<lambda>input keys. [input]) (\<lambda>v. v)
          [NotifyWebhookSubSys \<mapsto> [\<lparr>HelpKV.Key = ''endpoint'', Optional = False, Sensitive = False\<rparr>,
                                \<lparr>HelpKV.Key = ''auth_token'', Optional = True, Sensitive = True\<rparr>]]
          Map.empty
          ''notify_webhook:second state=off''
          [NotifyWebhookSubSys \<mapsto> [\<lparr>Key = Enable, Value = EnableOff\<rparr>, \<lparr>Key = ''endpoint'', Value = []\<rparr>,
                                \<lparr>Key = ''queue_dir'', Value = []\<rparr>]])) NotifyWebhookSubSys ''second'' = None"
  by (simp add: setkvs_eval eval_defs)

subsection \<open>Merge\<close>

lemma dom_New: "dom (New DefaultKVS) = SubSystems"
  by (auto simp: New_def split: if_splits)

lemma New_lookup:
  "New D k = (if k \<in> set SubSystemsList then Some [Default \<mapsto> zget D k] else None)"
  by (simp add: New_def SubSystems_def)

lemma SubSystemsList_distinct: "distinct SubSystemsList"
  by (simp add: SubSystemsList_def subsys_names)

lemma ran_renamedSubsys: "ran renamedSubsys = {ScannerSubSys}"
  by (simp add: renamedSubsys_def)

lemma renamed_registered: "ran renamedSubsys \<subseteq> SubSystems"
  by (simp add: ran_renamedSubsys SubSystems_def SubSystemsList_def)

lemma assign_present:
  "cp subSys = Some m \<Longrightarrow> assign cp subSys tgt kvs = Inr (cp(subSys \<mapsto> m(tgt \<mapsto> kvs)))"
  by (simp add: assign_def)

text \<open>\<open>Merge\<close> never assigns into a nil inner map: it returns, and the result has the
  sub-systems of \<open>New\<close>.\<close>

lemma Merge_tgts_total:
  "ran renamedSubsys \<subseteq> dom cp \<Longrightarrow>
     \<exists>cp'. Merge_tgts c cp subSys ts = Inr cp' \<and> dom cp' = dom cp"
proof (induction ts arbitrary: cp subSys)
  case Nil
  then show ?case by simp
next
  case (Cons tgt ts)
  show ?case
  proof (cases "cp subSys")
    case (Some m)
    define cp1 where "cp1 = cp(subSys \<mapsto> m(tgt \<mapsto>
        merge_fill (zget (tgts c subSys) tgt) (zget (tgts c subSys) tgt)
          (zget (tgts cp subSys) Default)))"
    from Some have d: "dom cp1 = dom cp"
      by (auto simp: cp1_def)
    with Cons.prems have "ran renamedSubsys \<subseteq> dom cp1"
      by simp
    from Cons.IH [OF this, of subSys] obtain cp' where
      r: "Merge_tgts c cp1 subSys ts = Inr cp'" and d': "dom cp' = dom cp1"
      by blast
    have "Merge_tgts c cp subSys (tgt # ts) = Merge_tgts c cp1 subSys ts"
      using Some by (simp add: Let_def assign_present cp1_def)
    with r d d' show ?thesis
      by simp
  next
    case None
    show ?thesis
    proof (cases "renamedSubsys subSys")
      case n: None
      from Cons.IH [OF Cons.prems, of subSys] None n show ?thesis
        by (simp add: Let_def)
    next
      case (Some rn)
      then have "rn \<in> ran renamedSubsys"
        by (auto simp: ran_def)
      with Cons.prems obtain m where m: "cp rn = Some m"
        by auto
      define cp1 where "cp1 = cp(rn \<mapsto> m(tgt \<mapsto>
          merge_fill (zget (tgts c subSys) tgt)
            (merge_fill (zget (tgts c subSys) tgt) (zget (tgts c subSys) tgt)
               (zget (tgts cp subSys) Default))
            (zget (tgts cp rn) Default)))"
      from m have d: "dom cp1 = dom cp"
        by (auto simp: cp1_def)
      with Cons.prems have "ran renamedSubsys \<subseteq> dom cp1"
        by simp
      from Cons.IH [OF this, of rn] obtain cp' where
        r: "Merge_tgts c cp1 rn ts = Inr cp'" and d': "dom cp' = dom cp1"
        by blast
      have "Merge_tgts c cp subSys (tgt # ts) = Merge_tgts c cp1 rn ts"
        using None Some m by (simp add: Let_def assign_present cp1_def)
      with r d d' show ?thesis
        by simp
    qed
  qed
qed

lemma Merge_subs_total:
  "ran renamedSubsys \<subseteq> dom cp \<Longrightarrow>
     \<exists>cp'. Merge_subs c cp ord = Inr cp' \<and> dom cp' = dom cp"
proof (induction ord arbitrary: cp)
  case Nil
  then show ?case by simp
next
  case (Cons p ord)
  obtain subSys ts where p: "p = (subSys, ts)"
    by (cases p) auto
  from Merge_tgts_total [OF Cons.prems, of c subSys ts] obtain cp1 where
    s: "Merge_tgts c cp subSys ts = Inr cp1" and d: "dom cp1 = dom cp"
    by blast
  from Cons.prems d have "ran renamedSubsys \<subseteq> dom cp1"
    by simp
  from Cons.IH [OF this] s d p show ?case
    by simp
qed

lemma Merge_total:
  "\<exists>m. Config_Merge DefaultKVS ord c = Inr m \<and> dom m = SubSystems"
  using Merge_subs_total [of "New DefaultKVS" c ord] renamed_registered
  by (simp add: Config_Merge_def dom_New)

text \<open>A sub-system that is neither visited nor the new name of a renamed one is not
  written.\<close>

lemma Merge_tgts_other:
  "Merge_tgts c cp subSys ts = Inr cp' \<Longrightarrow> s \<noteq> subSys \<Longrightarrow> s \<notin> ran renamedSubsys \<Longrightarrow>
     cp' s = cp s"
proof (induction ts arbitrary: cp subSys)
  case Nil
  then show ?case by simp
next
  case (Cons tgt ts)
  show ?case
  proof (cases "cp subSys")
    case (Some m)
    with Cons.prems(1) obtain cp1 where
      a: "assign cp subSys tgt (merge_fill (zget (tgts c subSys) tgt) (zget (tgts c subSys) tgt)
          (zget (tgts cp subSys) Default)) = Inr cp1"
      and r: "Merge_tgts c cp1 subSys ts = Inr cp'"
      by (auto simp: Let_def split: sum.splits)
    from a Some Cons.prems(2) have "cp1 s = cp s"
      by (auto simp: assign_def)
    with Cons.IH [OF r Cons.prems(2,3)] show ?thesis
      by simp
  next
    case None
    show ?thesis
    proof (cases "renamedSubsys subSys")
      case n: None
      with None Cons.prems(1) have "Merge_tgts c cp subSys ts = Inr cp'"
        by (simp add: Let_def)
      from Cons.IH [OF this Cons.prems(2,3)] show ?thesis .
    next
      case (Some rn)
      then have rn: "rn \<in> ran renamedSubsys"
        by (auto simp: ran_def)
      with Cons.prems(3) have ne: "s \<noteq> rn"
        by auto
      from None Some Cons.prems(1) obtain cp1 kvs where
        a: "assign cp rn tgt kvs = Inr cp1" and r: "Merge_tgts c cp1 rn ts = Inr cp'"
        by (auto simp: Let_def split: sum.splits)
      from a ne have "cp1 s = cp s"
        by (auto simp: assign_def split: option.splits)
      with Cons.IH [OF r ne Cons.prems(3)] show ?thesis
        by simp
    qed
  qed
qed

lemma Merge_subs_other:
  "Merge_subs c cp ord = Inr cp' \<Longrightarrow> s \<notin> fst ` set ord \<Longrightarrow> s \<notin> ran renamedSubsys \<Longrightarrow>
     cp' s = cp s"
proof (induction ord arbitrary: cp)
  case Nil
  then show ?case by simp
next
  case (Cons p ord)
  obtain subSys ts where p: "p = (subSys, ts)"
    by (cases p) auto
  from Cons.prems(1) p obtain cp1 where
    s: "Merge_tgts c cp subSys ts = Inr cp1" and r: "Merge_subs c cp1 ord = Inr cp'"
    by (auto split: sum.splits)
  from Cons.prems(2) p have ne: "s \<noteq> subSys" and rest: "s \<notin> fst ` set ord"
    by auto
  from Merge_tgts_other [OF s ne Cons.prems(3)] Cons.IH [OF r rest Cons.prems(3)]
  show ?case by simp
qed

lemma NotifyWebhook_not_renamed: "NotifyWebhookSubSys \<notin> ran renamedSubsys"
  by (simp add: ran_renamedSubsys subsys_names)

text \<open>
  C7 fails on the code. The back-fill of \<open>Merge\<close> reads the defaults from \<open>cp[subSys][Default]\<close>
  (line 642), an entry that \<open>Merge\<close> itself overwrites with the merged default target
  (line 664), and the ranges over the store visit the targets in no fixed order. In the
  store \<open>c\<close> the default target of \<open>notify_webhook\<close> has a key that the defaults lack.
  A first \<open>Merge\<close> that visits the target \<open>primary\<close> before the default target leaves
  \<open>primary\<close> as it is; a second \<open>Merge\<close>, of the result, that visits the default target
  first gives \<open>primary\<close> the key \<open>legacy\<close>. Both orders are orders of the ranges.
\<close>

theorem Merge_not_idempotent:
  "let D = [NotifyWebhookSubSys \<mapsto> [\<lparr>Key = Enable, Value = EnableOff\<rparr>,
                                      \<lparr>Key = ''endpoint'', Value = ''''\<rparr>]];
       c = [NotifyWebhookSubSys \<mapsto>
              [Default \<mapsto> [\<lparr>Key = Enable, Value = EnableOff\<rparr>,
                            \<lparr>Key = ''endpoint'', Value = ''''\<rparr>,
                            \<lparr>Key = ''legacy'', Value = ''x''\<rparr>],
               ''primary'' \<mapsto> [\<lparr>Key = Enable, Value = EnableOn\<rparr>,
                              \<lparr>Key = ''endpoint'', Value = ''http://h''\<rparr>]]];
       ord1 = [(NotifyWebhookSubSys, [''primary'', Default])];
       ord2 = (NotifyWebhookSubSys, [Default, ''primary''])
              # map (\<lambda>k. (k, [Default])) (filter (\<lambda>k. k \<noteq> NotifyWebhookSubSys) SubSystemsList);
       m1 = projr (Config_Merge D ord1 c);
       m2 = projr (Config_Merge D ord2 m1)
   in range_order c ord1 \<and> \<not> isl (Config_Merge D ord1 c) \<and>
      range_order m1 ord2 \<and> \<not> isl (Config_Merge D ord2 m1) \<and>
      tgts m1 NotifyWebhookSubSys ''primary''
        = Some [\<lparr>Key = Enable, Value = EnableOn\<rparr>, \<lparr>Key = ''endpoint'', Value = ''http://h''\<rparr>] \<and>
      tgts m2 NotifyWebhookSubSys ''primary''
        = Some [\<lparr>Key = Enable, Value = EnableOn\<rparr>, \<lparr>Key = ''endpoint'', Value = ''http://h''\<rparr>,
                \<lparr>Key = ''legacy'', Value = ''x''\<rparr>]"
proof -
  define D where "D = [NotifyWebhookSubSys \<mapsto> [\<lparr>Key = Enable, Value = EnableOff\<rparr>,
                                      \<lparr>Key = ''endpoint'', Value = ''''\<rparr>]]"
  define c where "c = [NotifyWebhookSubSys \<mapsto>
              [Default \<mapsto> [\<lparr>Key = Enable, Value = EnableOff\<rparr>,
                            \<lparr>Key = ''endpoint'', Value = ''''\<rparr>,
                            \<lparr>Key = ''legacy'', Value = ''x''\<rparr>],
               ''primary'' \<mapsto> [\<lparr>Key = Enable, Value = EnableOn\<rparr>,
                              \<lparr>Key = ''endpoint'', Value = ''http://h''\<rparr>]]]"
  define rest where
    "rest = map (\<lambda>k. (k, [Default])) (filter (\<lambda>k. k \<noteq> NotifyWebhookSubSys) SubSystemsList)"
  define m1 where "m1 = (New D)(NotifyWebhookSubSys \<mapsto>
              [''primary'' \<mapsto> [\<lparr>Key = Enable, Value = EnableOn\<rparr>,
                              \<lparr>Key = ''endpoint'', Value = ''http://h''\<rparr>],
               Default \<mapsto> [\<lparr>Key = Enable, Value = EnableOff\<rparr>,
                            \<lparr>Key = ''endpoint'', Value = ''''\<rparr>,
                            \<lparr>Key = ''legacy'', Value = ''x''\<rparr>]])"
  define x where "x = (New D)(NotifyWebhookSubSys \<mapsto>
              [Default \<mapsto> [\<lparr>Key = Enable, Value = EnableOff\<rparr>,
                            \<lparr>Key = ''endpoint'', Value = ''''\<rparr>,
                            \<lparr>Key = ''legacy'', Value = ''x''\<rparr>],
               ''primary'' \<mapsto> [\<lparr>Key = Enable, Value = EnableOn\<rparr>,
                              \<lparr>Key = ''endpoint'', Value = ''http://h''\<rparr>,
                              \<lparr>Key = ''legacy'', Value = ''x''\<rparr>]])"
  have nw: "NotifyWebhookSubSys \<in> set SubSystemsList"
    by (simp add: SubSystemsList_def)
  have new: "New D NotifyWebhookSubSys
      = Some [Default \<mapsto> [\<lparr>Key = Enable, Value = EnableOff\<rparr>, \<lparr>Key = ''endpoint'', Value = ''''\<rparr>]]"
    using nw by (simp add: New_lookup zget_def D_def)
  have dp: "Default \<noteq> ''primary''"
    by (simp add: Default_def)
  have ee: "Enable \<noteq> ''endpoint''" "Enable \<noteq> ''legacy''"
    by (simp_all add: Enable_def)
  have r1: "range_order c [(NotifyWebhookSubSys, [''primary'', Default])]"
    using dp by (auto simp: range_order_def tgts_def c_def)
  have s1: "Config_Merge D [(NotifyWebhookSubSys, [''primary'', Default])] c = Inr m1"
    using dp ee by (simp add: Config_Merge_def new merge_fill_def assign_def tgts_def zget_def
        c_def m1_def)
  have r2: "range_order m1 ((NotifyWebhookSubSys, [Default, ''primary'']) # rest)"
    unfolding range_order_def
  proof (intro conjI)
    show "distinct (map fst ((NotifyWebhookSubSys, [Default, ''primary'']) # rest))"
      using SubSystemsList_distinct by (simp add: rest_def comp_def)
    have "dom m1 = SubSystems"
      using nw by (auto simp: m1_def dom_New SubSystems_def)
    then show "set (map fst ((NotifyWebhookSubSys, [Default, ''primary'']) # rest)) = dom m1"
      using nw by (auto simp: rest_def comp_def SubSystems_def)
    have "\<And>k. k \<in> set SubSystemsList \<Longrightarrow> k \<noteq> NotifyWebhookSubSys \<Longrightarrow>
        dom (tgts m1 k) = {Default}"
      by (simp add: tgts_def New_lookup m1_def)
    moreover have "dom (tgts m1 NotifyWebhookSubSys) = {Default, ''primary''}"
      by (auto simp: tgts_def m1_def)
    ultimately show "list_all (\<lambda>(subSys, ts). distinct ts \<and> set ts = dom (tgts m1 subSys))
        ((NotifyWebhookSubSys, [Default, ''primary'']) # rest)"
      using dp by (auto simp: list_all_iff rest_def)
  qed
  have first: "Merge_tgts m1 (New D) NotifyWebhookSubSys [Default, ''primary''] = Inr x"
    using dp ee by (simp add: new merge_fill_def assign_def tgts_def zget_def m1_def x_def)
  have "ran renamedSubsys \<subseteq> dom x"
    using renamed_registered nw by (auto simp: x_def dom_New)
  from Merge_subs_total [OF this, of m1 rest] obtain m2 where
    rest_run: "Merge_subs m1 x rest = Inr m2"
    by blast
  have "NotifyWebhookSubSys \<notin> fst ` set rest"
    by (auto simp: rest_def)
  from Merge_subs_other [OF rest_run this NotifyWebhook_not_renamed]
  have same: "m2 NotifyWebhookSubSys = x NotifyWebhookSubSys" .
  have s2: "Config_Merge D ((NotifyWebhookSubSys, [Default, ''primary'']) # rest) m1 = Inr m2"
    by (simp only: Config_Merge_def Merge_subs.simps first sum.case rest_run)
  have t1: "tgts m1 NotifyWebhookSubSys ''primary''
      = Some [\<lparr>Key = Enable, Value = EnableOn\<rparr>, \<lparr>Key = ''endpoint'', Value = ''http://h''\<rparr>]"
    using dp by (auto simp: tgts_def m1_def)
  have t2: "tgts m2 NotifyWebhookSubSys ''primary''
      = Some [\<lparr>Key = Enable, Value = EnableOn\<rparr>, \<lparr>Key = ''endpoint'', Value = ''http://h''\<rparr>,
              \<lparr>Key = ''legacy'', Value = ''x''\<rparr>]"
    using dp by (auto simp: tgts_def same x_def)
  from r1 s1 r2 s2 t1 t2 show ?thesis
    by (simp add: Let_def D_def [symmetric] c_def [symmetric] rest_def [symmetric])
qed

end
